theory Spec2Isabelle
  imports Complex_Main "HOL-Library.AList"
begin

section \<open>Values exchanged with the remote service\<close>

text \<open>
  The script \<^verbatim>\<open>scripts/scrape-documents.ts\<close> handles untyped JSON: the parsed response
  body, the object handed back by \<^verbatim>\<open>scrapeDocuments\<close> and the free-form properties of a
  \<^verbatim>\<open>DetailEntry\<close>.  A JavaScript string is represented by the bytes of its UTF-8 encoding;
  an object by its own properties in enumeration order.  A property that is absent reads
  as \<^verbatim>\<open>undefined\<close>, modelled by \<open>None\<close>.
\<close>

datatype json =
    JNull
  | JBool bool
  | JNum real
  | JStr string
  | JArr "json list"
  | JObj "(string \<times> json) list"

text \<open>Property read \<^verbatim>\<open>v.k\<close> for the fixed, non-index names the script uses.  Reading a
  property of \<^verbatim>\<open>null\<close> throws; the callers below test for it before they read.\<close>

fun get :: "json \<Rightarrow> string \<Rightarrow> json option" where
  "get (JObj kvs) k = map_of kvs k"
| "get _ k = None"

text \<open>JavaScript truthiness of a value, and of a possibly undefined one.\<close>

fun truthy :: "json \<Rightarrow> bool" where
  "truthy JNull = False"
| "truthy (JBool b) = b"
| "truthy (JNum n) = (n \<noteq> 0)"
| "truthy (JStr s) = (s \<noteq> [])"
| "truthy (JArr xs) = True"
| "truthy (JObj kvs) = True"

fun truthyO :: "json option \<Rightarrow> bool" where
  "truthyO None = False"
| "truthyO (Some v) = truthy v"

text \<open>\<^verbatim>\<open>x || d\<close> for a possibly undefined \<open>x\<close>.\<close>

fun orElse :: "json option \<Rightarrow> json \<Rightarrow> json" where
  "orElse None d = d"
| "orElse (Some v) d = (if truthy v then v else d)"

text \<open>\<^verbatim>\<open>Object.keys(v).length > 0\<close> for a truthy \<open>v\<close>: objects list their own keys, arrays
  and strings their indices, numbers and booleans have none.\<close>

fun hasOwnKeys :: "json \<Rightarrow> bool" where
  "hasOwnKeys (JObj kvs) = (kvs \<noteq> [])"
| "hasOwnKeys (JArr xs) = (xs \<noteq> [])"
| "hasOwnKeys (JStr s) = (s \<noteq> [])"
| "hasOwnKeys _ = False"

text \<open>An object literal with a property whose value may be undefined.\<close>

fun withProp :: "string \<Rightarrow> json option \<Rightarrow> (string \<times> json) list" where
  "withProp k None = []"
| "withProp k (Some v) = [(k, v)]"

subsection \<open>Strings\<close>

fun startsWith :: "string \<Rightarrow> string \<Rightarrow> bool" where
  "startsWith s [] = True"
| "startsWith [] (c # cs) = False"
| "startsWith (x # xs) (c # cs) = (x = c \<and> startsWith xs cs)"

text \<open>\<^verbatim>\<open>String.prototype.includes\<close>: the needle occurs as a contiguous run.\<close>

fun includesStr :: "string \<Rightarrow> string \<Rightarrow> bool" where
  "includesStr [] needle = (needle = [])"
| "includesStr (x # xs) needle = (startsWith (x # xs) needle \<or> includesStr xs needle)"

text \<open>The phrase the service puts into the message of a blocked reply (two Hangul
  syllables, U+CC28 U+B2E8), and the default message of a reply without data.\<close>

definition blockPhrase :: string where
  "blockPhrase = [CHR 0xEC, CHR 0xB0, CHR 0xA8, CHR 0xEB, CHR 0x8B, CHR 0xA8]"

definition noDataText :: string where
  "noDataText = [CHR 0xEB, CHR 0x8D, CHR 0xB0, CHR 0xEC, CHR 0x9D, CHR 0xB4, CHR 0xED, CHR 0x84,
     CHR 0xB0, CHR 0x20, CHR 0xEC, CHR 0x97, CHR 0x86, CHR 0xEC, CHR 0x9D, CHR 0x8C]"

section \<open>The fetch and its classification\<close>

text \<open>
  What one call of \<^verbatim>\<open>fetch\<close> inside \<^verbatim>\<open>scrapeDocuments\<close> yields: the request or the reading
  of the body rejects (with the text of \<^verbatim>\<open>String(e)\<close>), or a response arrives whose body
  either fails \<^verbatim>\<open>JSON.parse\<close> (kept: the status and \<^verbatim>\<open>text.slice(0, 200)\<close>) or parses.
\<close>

datatype raw =
    FetchFailed string
  | Unparseable nat string
  | Parsed nat json

text \<open>\<^verbatim>\<open>json.message?.includes(phrase)\<close>.  An absent or null message short-circuits to
  undefined; a string searches for the run, an array for the element; any other value has
  no \<^verbatim>\<open>includes\<close> method and the call throws a TypeError (\<open>None\<close>).\<close>

fun messageIncludes :: "json option \<Rightarrow> bool option" where
  "messageIncludes None = Some False"
| "messageIncludes (Some JNull) = Some False"
| "messageIncludes (Some (JStr s)) = Some (includesStr s blockPhrase)"
| "messageIncludes (Some (JArr xs)) = Some (JStr blockPhrase \<in> set xs)"
| "messageIncludes (Some _) = None"

text \<open>\<^verbatim>\<open>String(e)\<close> of the two TypeErrors the body of \<^verbatim>\<open>scrapeDocuments\<close> can raise in
  Chromium, where the function runs.\<close>

definition nullReadText :: string where
  "nullReadText = ''TypeError: Cannot read properties of null (reading 'data')''"

definition notFunctionText :: string where
  "notFunctionText = ''TypeError: json.message?.includes is not a function''"

definition errorObj :: "(string \<times> json) list \<Rightarrow> json" where
  "errorObj props = JObj ((''__error'', JBool True) # props)"

text \<open>\<^verbatim>\<open>const data = json.data || json\<close>.\<close>

definition dataOf :: "json \<Rightarrow> json" where
  "dataOf j = orElse (get j ''data'') j"

text \<open>\<^verbatim>\<open>res.ok\<close>.\<close>

definition statusOk :: "nat \<Rightarrow> bool" where
  "statusOk st = (200 \<le> st \<and> st \<le> 299)"

text \<open>The object \<^verbatim>\<open>scrapeDocuments\<close> resolves to, lines 60 to 82.\<close>

fun scrapeDocuments :: "raw \<Rightarrow> json" where
  "scrapeDocuments (FetchFailed e) = errorObj [(''message'', JStr e)]"
| "scrapeDocuments (Unparseable st body) =
     errorObj [(''status'', JNum (real st)), (''body'', JStr body)]"
| "scrapeDocuments (Parsed st j) =
     (if j = JNull then errorObj [(''message'', JStr nullReadText)]
      else case messageIncludes (get j ''message'') of
        None \<Rightarrow> errorObj [(''message'', JStr notFunctionText)]
      | Some inc \<Rightarrow>
          if inc \<or> get (dataOf j) ''ipcheck'' = Some (JBool False)
          then JObj ((''__blocked'', JBool True) # withProp ''message'' (get j ''message''))
          else if st = 550
          then JObj [(''__nodata'', JBool True),
                     (''message'', orElse (get j ''message'') (JStr noDataText))]
          else if \<not> statusOk st
          then errorObj ((''status'', JNum (real st)) # withProp ''message'' (get j ''message''))
          else dataOf j)"

text \<open>The four outcomes the loop of \<^verbatim>\<open>main\<close> tells apart, by the tests of lines 230, 252
  and 256 in that order.\<close>

datatype outcome = Blocked | NoData | Success | Error

definition classify :: "json \<Rightarrow> outcome" where
  "classify r =
     (if truthyO (get r ''__blocked'') then Blocked
      else if truthyO (get r ''__nodata'') then NoData
      else if truthy r \<and> \<not> truthyO (get r ''__error'') then Success
      else Error)"

section \<open>Records, checkpoint and files\<close>

text \<open>
  A \<^verbatim>\<open>DetailEntry\<close>: the four declared string fields and, for the index signature
  \<^verbatim>\<open>[key: string]: any\<close>, its further properties in insertion order.  Assigning to a
  property keeps its place when it exists and appends it otherwise.
\<close>

record entry =
  cortOfcCd :: string
  csNo :: string
  courtName :: string
  caseNumber :: string
  props :: "(string \<times> json) list"

definition keyOf :: "entry \<Rightarrow> string" where
  "keyOf d = cortOfcCd d @ csNo d"

definition getProp :: "entry \<Rightarrow> string \<Rightarrow> json option" where
  "getProp d k = map_of (props d) k"

definition setProp :: "string \<Rightarrow> json \<Rightarrow> entry \<Rightarrow> entry" where
  "setProp k v d = d\<lparr>props := AList.update k v (props d)\<rparr>"

text \<open>\<^verbatim>\<open>ProgressData\<close>; the two timestamps are left out.\<close>

record progress =
  completed :: "string list"
  total :: nat

text \<open>The parsed content of the details file: an array of entries, or an object whose
  values are the entries (its properties in enumeration order).\<close>

datatype rawData =
    RawSeq "entry list"
  | RawMap "(string \<times> entry) list"

text \<open>Lines 120 to 122: \<^verbatim>\<open>Array.isArray(rawData) ? rawData : Object.values(rawData)\<close>.\<close>

fun detailsOf :: "rawData \<Rightarrow> entry list" where
  "detailsOf (RawSeq ds) = ds"
| "detailsOf (RawMap kvs) = map snd kvs"

text \<open>\<^verbatim>\<open>String(idx)\<close> for an array index: its decimal digits.\<close>

definition digitChar :: "nat \<Rightarrow> char" where
  "digitChar n = char_of (48 + n)"

fun stringOfNat :: "nat \<Rightarrow> string" where
  "stringOfNat n =
     (if n < 10 then [digitChar n] else stringOfNat (n div 10) @ [digitChar (n mod 10)])"

declare stringOfNat.simps [simp del]

text \<open>The loop of lines 165 to 168, building \<^verbatim>\<open>out\<close> from index \<open>idx\<close> on.\<close>

fun indexKeyed :: "nat \<Rightarrow> entry list \<Rightarrow> (string \<times> entry) list \<Rightarrow> (string \<times> entry) list" where
  "indexKeyed idx [] out = out"
| "indexKeyed idx (d # ds) out = indexKeyed (Suc idx) ds (AList.update (stringOfNat idx) d out)"

text \<open>What \<^verbatim>\<open>saveDetails\<close> writes (lines 161 to 171), given the shape that was loaded.\<close>

fun serializeDetails :: "rawData \<Rightarrow> entry list \<Rightarrow> rawData" where
  "serializeDetails (RawSeq orig) ds = RawSeq ds"
| "serializeDetails (RawMap orig) ds = RawMap (indexKeyed 0 ds [])"

text \<open>\<^verbatim>\<open>loadProgress\<close>, lines 89 to 99: the file when resuming and it exists.\<close>

definition freshProgress :: progress where
  "freshProgress = \<lparr>completed = [], total = 0\<rparr>"

definition loadProgress :: "bool \<Rightarrow> progress option \<Rightarrow> progress" where
  "loadProgress resume file =
     (if resume then (case file of Some p \<Rightarrow> p | None \<Rightarrow> freshProgress) else freshProgress)"

section \<open>Target selection\<close>

text \<open>Lines 130 to 135.\<close>

definition isPending :: "string list \<Rightarrow> entry \<Rightarrow> bool" where
  "isPending done d =
     (if keyOf d \<in> set done then False
      else if getProp d ''deliveryRecords'' \<noteq> None then False
      else True)"

definition pendingList :: "string list \<Rightarrow> entry list \<Rightarrow> entry list" where
  "pendingList done ds = filter (isPending done) ds"

text \<open>Lines 137 to 143, the sample of the test mode.\<close>

definition isAdvanced :: "entry \<Rightarrow> bool" where
  "isAdvanced d =
     (case getProp d ''investigation'' of
        None \<Rightarrow> False
      | Some investigation \<Rightarrow>
          (case get investigation ''dma_curstExmnMngInf'' of
             None \<Rightarrow> False
           | Some m \<Rightarrow> truthy m \<and> hasOwnKeys m))"

definition sample :: "entry list \<Rightarrow> entry list" where
  "sample ts = take 3 (filter isAdvanced ts) @ take 2 (filter (\<lambda>d. \<not> isAdvanced d) ts)"

definition selectTargets :: "bool \<Rightarrow> string list \<Rightarrow> entry list \<Rightarrow> entry list" where
  "selectTargets test done ds =
     (let targets = pendingList done ds in if test then sample targets else targets)"

text \<open>Lines 155 to 158: \<^verbatim>\<open>detailMap\<close> sends a key to the last entry of \<^verbatim>\<open>details\<close> that
  carries it; entries are referred to by their position in \<^verbatim>\<open>details\<close>.\<close>

definition detailMap :: "entry list \<Rightarrow> string \<Rightarrow> nat option" where
  "detailMap ds = fold (\<lambda>(j, d) m. m(keyOf d \<mapsto> j)) (enumerate 0 ds) Map.empty"

section \<open>The run\<close>

definition DELAY_BETWEEN :: nat where "DELAY_BETWEEN = 1500"
definition BATCH_REST_INTERVAL :: nat where "BATCH_REST_INTERVAL = 50"
definition BATCH_REST_DURATION :: nat where "BATCH_REST_DURATION = 15000"
definition IP_BLOCK_WAIT :: nat where "IP_BLOCK_WAIT = 3 * 60 * 1000"
definition MAX_CONSECUTIVE_BLOCKS :: nat where "MAX_CONSECUTIVE_BLOCKS = 5"

text \<open>
  What the outside world decides during a run.  The \<open>n\<close>-th call of \<^verbatim>\<open>scrapeDocuments\<close>
  either rejects (\<^verbatim>\<open>page.evaluate\<close> throws) or resolves with the object computed from a raw
  reply; the \<open>n\<close>-th \<^verbatim>\<open>page.goto\<close> and the \<open>n\<close>-th \<^verbatim>\<open>writeFileSync\<close> complete or throw;
  \<open>wsReady\<close> is the result of the probe of lines 188 to 192.  \<open>numGt0 v\<close> is the runtime's
  comparison \<^verbatim>\<open>v > 0\<close> for a string, array or object \<open>v\<close> (\<open>None\<close>: the conversion to a
  primitive throws).  Timers and \<^verbatim>\<open>browser.close\<close> are taken to complete.
\<close>

datatype fetched = Rejected | Resolved raw

record env =
  fetchAt :: "nat \<Rightarrow> fetched"
  gotoOk :: "nat \<Rightarrow> bool"
  writeOk :: "nat \<Rightarrow> bool"
  wsReady :: bool
  numGt0 :: "json \<Rightarrow> bool option"

text \<open>The effects a run leaves behind, in order: \<open>Fetch i c n\<close> is the call of line 228
  in the pass for index \<open>i\<close>; a write and a navigation carry whether they completed.\<close>

datatype event =
    Fetch nat string string
  | Wait nat
  | Goto bool
  | WriteDetails bool
  | WriteProgress bool
  | CloseBrowser

text \<open>
  The variables of \<^verbatim>\<open>main\<close> the loop works on, the two files, the number of calls made so far
  of each kind, and the effects so far.  A write that throws is taken to leave its file
  as it was.  The item totals of \<^verbatim>\<open>stats\<close> and the text the script prints are left out;
  whether computing them throws is not (see \<open>printable\<close> below).
\<close>

record state =
  rawData :: rawData
  details :: "entry list"
  progress :: progress
  success :: nat
  errors :: nat
  consecutiveBlocks :: nat
  detailsFile :: rawData
  progressFile :: "progress option"
  fetches :: nat
  navs :: nat
  writes :: nat
  trace :: "event list"

definition emit :: "event \<Rightarrow> state \<Rightarrow> state" where
  "emit e s = s\<lparr>trace := trace s @ [e]\<rparr>"

definition markCompleted :: "string \<Rightarrow> state \<Rightarrow> state" where
  "markCompleted k s = s\<lparr>progress := (progress s)\<lparr>completed := completed (progress s) @ [k]\<rparr>\<rparr>"

text \<open>\<^verbatim>\<open>saveProgress\<close> (lines 101 to 106) and \<^verbatim>\<open>saveDetails\<close> (lines 161 to 171): the flag
  tells whether the write completed.\<close>

definition saveProgress :: "env \<Rightarrow> state \<Rightarrow> bool \<times> state" where
  "saveProgress env s =
     (let ok = writeOk env (writes s)
      in (ok, emit (WriteProgress ok)
                (s\<lparr>writes := Suc (writes s),
                   progressFile := (if ok then Some (progress s) else progressFile s)\<rparr>)))"

definition saveDetails :: "env \<Rightarrow> state \<Rightarrow> bool \<times> state" where
  "saveDetails env s =
     (let ok = writeOk env (writes s)
      in (ok, emit (WriteDetails ok)
                (s\<lparr>writes := Suc (writes s),
                   detailsFile := (if ok then serializeDetails (rawData s) (details s)
                                   else detailsFile s)\<rparr>)))"

text \<open>How one pass through the loop body ends: \<^verbatim>\<open>i++\<close>, \<^verbatim>\<open>i--\<close> followed by \<^verbatim>\<open>i++\<close>, or
  \<^verbatim>\<open>process.exit\<close>.\<close>

datatype control = Advance | Retry | Exit nat

text \<open>The end of the \<^verbatim>\<open>try\<close> block reached normally, and the \<^verbatim>\<open>catch\<close> block of lines 285
  to 288; both go on to the pause of line 290.\<close>

definition delayed :: "state \<Rightarrow> control \<times> state" where
  "delayed s = (Advance, emit (Wait DELAY_BETWEEN) s)"

definition caught :: "state \<Rightarrow> control \<times> state" where
  "caught s = delayed (s\<lparr>errors := Suc (errors s)\<rparr>)"

text \<open>Lines 235 to 239.\<close>

definition abortRun :: "env \<Rightarrow> state \<Rightarrow> control \<times> state" where
  "abortRun env s =
     (case saveDetails env s of
        (False, s1) \<Rightarrow> caught s1
      | (True, s1) \<Rightarrow>
          (case saveProgress env s1 of
             (False, s2) \<Rightarrow> caught s2
           | (True, s2) \<Rightarrow> (Exit 1, emit CloseBrowser s2)))"

text \<open>Lines 242 to 247.\<close>

definition cooldown :: "env \<Rightarrow> state \<Rightarrow> control \<times> state" where
  "cooldown env s =
     (let s1 = emit (Wait IP_BLOCK_WAIT) s;
          ok = gotoOk env (navs s1);
          s2 = emit (Goto ok) (s1\<lparr>navs := Suc (navs s1)\<rparr>)
      in if ok then (Retry, emit (Wait 3000) s2) else caught s2)"

text \<open>Lines 230 to 248.\<close>

definition onBlocked :: "env \<Rightarrow> state \<Rightarrow> control \<times> state" where
  "onBlocked env s =
     (let s1 = s\<lparr>consecutiveBlocks := Suc (consecutiveBlocks s)\<rparr>
      in if consecutiveBlocks s1 \<ge> MAX_CONSECUTIVE_BLOCKS then abortRun env s1
         else cooldown env s1)"

subsection \<open>Merging an outcome into an entry\<close>

text \<open>Lines 253 and 254, and again 271 and 272.\<close>

definition mergeEmpty :: "entry \<Rightarrow> entry" where
  "mergeEmpty e = setProp ''documentRecords'' (JArr []) (setProp ''deliveryRecords'' (JArr []) e)"

text \<open>\<^verbatim>\<open>v.length > 0\<close>.  Arrays and strings have a numeric length; numbers and booleans
  have none, and \<^verbatim>\<open>undefined > 0\<close> is false; an object has the property it was sent with,
  compared after conversion to a number; reading the length of \<^verbatim>\<open>null\<close> throws.\<close>

fun lengthGt0 :: "(json \<Rightarrow> bool option) \<Rightarrow> json \<Rightarrow> bool option" where
  "lengthGt0 cmp (JArr xs) = Some (xs \<noteq> [])"
| "lengthGt0 cmp (JStr s) = Some (s \<noteq> [])"
| "lengthGt0 cmp (JNum n) = Some False"
| "lengthGt0 cmp (JBool b) = Some False"
| "lengthGt0 cmp JNull = None"
| "lengthGt0 cmp (JObj kvs) =
     (case map_of kvs ''length'' of
        None \<Rightarrow> Some False
      | Some JNull \<Rightarrow> Some False
      | Some (JBool b) \<Rightarrow> Some b
      | Some (JNum n) \<Rightarrow> Some (n > 0)
      | Some v \<Rightarrow> cmp v)"

text \<open>Lines 257 to 265.  The flag is false when the comparison of line 264 throws, which
  leaves the entry with the two assignments made before it.\<close>

definition mergeSuccess :: "(json \<Rightarrow> bool option) \<Rightarrow> json \<Rightarrow> entry \<Rightarrow> bool \<times> entry" where
  "mergeSuccess cmp r e =
     (let deliveryList = orElse (get r ''dlt_dlvrDtsLst'') (JArr []);
          documentList = orElse (get r ''dlt_ofdocDtsLst'') (JArr []);
          mergerList = orElse (get r ''dlt_mrgDpcnSbxLst'') (JArr []);
          priorCase = orElse (get r ''dma_trnscsBfCsInfo'') JNull;
          e1 = setProp ''documentRecords'' documentList
                 (setProp ''deliveryRecords'' deliveryList e)
      in case lengthGt0 cmp mergerList of
           None \<Rightarrow> (False, e1)
         | Some nonEmpty \<Rightarrow>
             (let e2 = (if nonEmpty then setProp ''mergerRecords'' mergerList e1 else e1);
                  e3 = (if truthy priorCase \<and> hasOwnKeys priorCase
                        then setProp ''priorCaseInfo'' priorCase e2 else e2)
              in (True, e3)))"

text \<open>
  Conversion of a value to a string, as a template literal performs it, and to a primitive,
  as the operator \<^verbatim>\<open>+=\<close> performs it.  Both complete for null, a boolean, a number and a
  string.  An object is converted by its methods \<^verbatim>\<open>toString\<close> and \<^verbatim>\<open>valueOf\<close>, tried in
  either order: a parsed object inherits both, unless it has a property of that name, whose
  value is then not callable and is passed over.  The inherited \<^verbatim>\<open>valueOf\<close> returns the
  object itself, which is not a primitive, so the conversion completes exactly when
  \<^verbatim>\<open>toString\<close> is inherited, and throws a TypeError otherwise.  An array is joined, which
  converts each of its elements that is not null.  (The comparison of line 264 converts in
  the same way and then reads the string as a number; its outcome is left to \<open>numGt0\<close>.)
\<close>

fun printable :: "json \<Rightarrow> bool" where
  "printable (JArr xs) = (\<forall>x \<in> set xs. printable x)"
| "printable (JObj kvs) = (map_of kvs ''toString'' = None)"
| "printable v = True"

fun printableO :: "json option \<Rightarrow> bool" where
  "printableO None = True"
| "printableO (Some v) = printable v"

text \<open>Reading \<^verbatim>\<open>v.length\<close> and converting it: an array or a string has a numeric length, a
  number or a boolean has none, an object has the property it was sent with; reading the
  length of \<^verbatim>\<open>null\<close> throws.\<close>

fun lengthPrintable :: "json \<Rightarrow> bool" where
  "lengthPrintable JNull = False"
| "lengthPrintable (JObj kvs) = printableO (map_of kvs ''length'')"
| "lengthPrintable v = True"

text \<open>Whether the log line of a branch completes: line 255, which prints
  \<^verbatim>\<open>result.message\<close>; lines 267 to 269, which add the two lengths to \<^verbatim>\<open>stats\<close> and print
  them; line 273, which prints \<^verbatim>\<open>result.message || result.status\<close> when \<^verbatim>\<open>__error\<close> is
  truthy and a fixed word otherwise.\<close>

definition logNoData :: "json \<Rightarrow> bool" where
  "logNoData r = printableO (get r ''message'')"

definition logSuccess :: "json \<Rightarrow> bool" where
  "logSuccess r =
     (lengthPrintable (orElse (get r ''dlt_dlvrDtsLst'') (JArr [])) \<and>
      lengthPrintable (orElse (get r ''dlt_ofdocDtsLst'') (JArr [])))"

definition logError :: "json \<Rightarrow> bool" where
  "logError r =
     (if truthyO (get r ''__error'')
      then printableO (if truthyO (get r ''message'') then get r ''message'' else get r ''status'')
      else True)"

text \<open>The steps of lines 252 to 275 for an outcome that is not \<open>Blocked\<close>: whether they
  completed, the entry as they leave it, and whether \<^verbatim>\<open>errors++\<close> of line 274 ran.  The log
  line of a branch comes after its assignments, and in the last branch before line 274:
  when it throws, the entry keeps the assignments and line 274 is not reached.\<close>

definition merge :: "(json \<Rightarrow> bool option) \<Rightarrow> json \<Rightarrow> entry \<Rightarrow> bool \<times> entry \<times> bool" where
  "merge cmp r e =
     (case classify r of
        NoData \<Rightarrow> (logNoData r, mergeEmpty e, False)
      | Success \<Rightarrow> (case mergeSuccess cmp r e of (ok, e') \<Rightarrow> (ok \<and> logSuccess r, e', False))
      | _ \<Rightarrow> (logError r, mergeEmpty e, logError r))"

subsection \<open>The loop body\<close>

text \<open>Lines 277 to 284.\<close>

definition settle :: "env \<Rightarrow> bool \<Rightarrow> nat \<Rightarrow> string \<Rightarrow> state \<Rightarrow> control \<times> state" where
  "settle env test i k s =
     (let s1 = markCompleted k (s\<lparr>success := Suc (success s)\<rparr>)
      in if i mod 10 = 0 \<or> test
         then (case saveProgress env s1 of
                 (False, s2) \<Rightarrow> caught s2
               | (True, s2) \<Rightarrow>
                   (case saveDetails env s2 of
                      (False, s3) \<Rightarrow> caught s3
                    | (True, s3) \<Rightarrow> delayed s3))
         else delayed s1)"

text \<open>Lines 250 to 284, for the entry at position \<open>j\<close> and a result \<open>r\<close> that is not
  \<open>Blocked\<close>.  When a step of lines 252 to 275 throws, the \<^verbatim>\<open>catch\<close> block follows, and
  lines 277 to 284 are not reached.\<close>

definition onResult :: "env \<Rightarrow> bool \<Rightarrow> nat \<Rightarrow> string \<Rightarrow> nat \<Rightarrow> json \<Rightarrow> state \<Rightarrow> control \<times> state" where
  "onResult env test i k j r s =
     (case merge (numGt0 env) r (details s ! j) of
        (ok, e', err) \<Rightarrow>
          (let s1 = s\<lparr>consecutiveBlocks := 0, details := (details s)[j := e']\<rparr>;
               s2 = (if err then s1\<lparr>errors := Suc (errors s1)\<rparr> else s1)
           in if ok then settle env test i k s2 else caught s2))"

text \<open>Lines 227 to 290 for a target whose entry was found at position \<open>j\<close>.\<close>

definition attempt :: "env \<Rightarrow> bool \<Rightarrow> nat \<Rightarrow> entry \<Rightarrow> nat \<Rightarrow> state \<Rightarrow> control \<times> state" where
  "attempt env test i t j s =
     (let s1 = emit (Fetch i (cortOfcCd t) (csNo t)) (s\<lparr>fetches := Suc (fetches s)\<rparr>)
      in case fetchAt env (fetches s) of
           Rejected \<Rightarrow> caught s1
         | Resolved reply \<Rightarrow>
             (let r = scrapeDocuments reply
              in if classify r = Blocked then onBlocked env s1
                 else onResult env test i (keyOf t) j r s1))"

text \<open>Lines 211 to 215 (\<open>batchRest\<close>) and lines 208 to 290: one pass for the target \<open>t\<close>
  at index \<open>i\<close>.  The target is an
  element of \<^verbatim>\<open>details\<close>; the loop reads only its two key fields, which no assignment
  in the script changes.\<close>

definition batchRest :: "nat \<Rightarrow> state \<Rightarrow> state" where
  "batchRest i s =
     (if i > 0 \<and> i mod BATCH_REST_INTERVAL = 0 then emit (Wait BATCH_REST_DURATION) s else s)"

definition body :: "env \<Rightarrow> bool \<Rightarrow> nat \<Rightarrow> entry \<Rightarrow> state \<Rightarrow> control \<times> state" where
  "body env test i t s =
     (let s0 = batchRest i s
      in case detailMap (details s0) (keyOf t) of
           None \<Rightarrow> (Advance, markCompleted (keyOf t) (s0\<lparr>errors := Suc (errors s0)\<rparr>))
         | Some j \<Rightarrow> attempt env test i t j s0)"

subsection \<open>The loop and the whole run\<close>

text \<open>How \<^verbatim>\<open>main\<close> ends: it returns, the process exits with a status, or an exception
  leaves \<^verbatim>\<open>main\<close> and is printed by \<^verbatim>\<open>main().catch(console.error)\<close>.\<close>

datatype ending = Finished | Exited nat | Crashed

text \<open>Lines 293 to 304; the two writes stand outside every \<^verbatim>\<open>try\<close>.\<close>

definition finalSave :: "env \<Rightarrow> state \<Rightarrow> ending \<times> state" where
  "finalSave env s =
     (case saveDetails env s of
        (False, s1) \<Rightarrow> (Crashed, s1)
      | (True, s1) \<Rightarrow>
          (case saveProgress env s1 of
             (False, s2) \<Rightarrow> (Crashed, s2)
           | (True, s2) \<Rightarrow> (Finished, emit CloseBrowser s2)))"

lemma delayed_Advance: "fst (delayed s) = Advance"
  by (simp add: delayed_def)

lemma caught_Advance: "fst (caught s) = Advance"
  by (simp add: caught_def delayed_def)

lemma abortRun_not_Retry: "fst (abortRun env s) \<noteq> Retry"
  by (simp add: abortRun_def caught_Advance split: prod.split bool.split)

lemma settle_Advance: "fst (settle env test i k s) = Advance"
  by (simp add: settle_def Let_def caught_Advance delayed_Advance split: prod.split bool.split)

lemma onResult_Advance: "fst (onResult env test i k j r s) = Advance"
  by (simp add: onResult_def Let_def caught_Advance settle_Advance split: prod.split)

lemma consecutiveBlocks_emit [simp]: "consecutiveBlocks (emit e s) = consecutiveBlocks s"
  by (simp add: emit_def)

lemma cooldown_Retry:
  "fst (cooldown env s) = Retry \<Longrightarrow> consecutiveBlocks (snd (cooldown env s)) = consecutiveBlocks s"
  by (simp add: cooldown_def Let_def caught_Advance split: if_splits)

lemma onBlocked_Retry:
  assumes "fst (onBlocked env s) = Retry"
  shows "consecutiveBlocks (snd (onBlocked env s)) = Suc (consecutiveBlocks s)"
    and "Suc (consecutiveBlocks s) < MAX_CONSECUTIVE_BLOCKS"
  using assms cooldown_Retry [of env "s\<lparr>consecutiveBlocks := Suc (consecutiveBlocks s)\<rparr>"]
  by (auto simp: onBlocked_def Let_def abortRun_not_Retry split: if_splits)

lemma attempt_Retry:
  assumes "fst (attempt env test i t j s) = Retry"
  shows "consecutiveBlocks (snd (attempt env test i t j s)) = Suc (consecutiveBlocks s)"
    and "Suc (consecutiveBlocks s) < MAX_CONSECUTIVE_BLOCKS"
  using assms
    onBlocked_Retry [of env "emit (Fetch i (cortOfcCd t) (csNo t)) (s\<lparr>fetches := Suc (fetches s)\<rparr>)"]
  by (auto simp: attempt_def Let_def caught_Advance onResult_Advance
      split: fetched.splits if_splits)

lemma body_Retry:
  assumes "fst (body env test i t s) = Retry"
  shows "consecutiveBlocks (snd (body env test i t s)) = Suc (consecutiveBlocks s)"
    and "Suc (consecutiveBlocks s) < MAX_CONSECUTIVE_BLOCKS"
  using assms attempt_Retry [of env test i t _ "batchRest i s"]
  by (auto simp: body_def Let_def batchRest_def split: option.splits if_splits)

text \<open>Lines 207 to 291, from index \<open>i\<close> on, followed by the final save.  A retry needs
  a count that is still below the limit and raises it, so the loop ends.\<close>

function runLoop :: "env \<Rightarrow> bool \<Rightarrow> entry list \<Rightarrow> nat \<Rightarrow> state \<Rightarrow> ending \<times> state" where
  "runLoop env test targets i s =
     (if i < length targets
      then (let r = body env test i (targets ! i) s
            in case fst r of
                 Advance \<Rightarrow> runLoop env test targets (Suc i) (snd r)
               | Retry \<Rightarrow> runLoop env test targets i (snd r)
               | Exit c \<Rightarrow> (Exited c, snd r))
      else finalSave env s)"
  by pat_completeness auto
termination
proof (relation "measures [\<lambda>(env, test, targets, i, s). length targets - i,
    \<lambda>(env, test, targets, i, s). MAX_CONSECUTIVE_BLOCKS - consecutiveBlocks s]", goal_cases)
  case 1
  show ?case by simp
next
  case (2 env test targets i s r)
  then show ?case by auto
next
  case (3 env test targets i s r)
  then show ?case
    using body_Retry [of env test i "targets ! i" s] by auto
qed

declare runLoop.simps [simp del]

text \<open>
  \<^verbatim>\<open>main\<close> from line 119 on, for a details file that exists and parses (without the file
  the script exits with status 1 at line 115).
\<close>

definition startState :: "rawData \<Rightarrow> progress option \<Rightarrow> progress \<Rightarrow> state" where
  "startState raw pfile pr =
     \<lparr>rawData = raw, details = detailsOf raw, progress = pr, success = 0, errors = 0,
      consecutiveBlocks = 0, detailsFile = raw, progressFile = pfile,
      fetches = 0, navs = 0, writes = 0, trace = []\<rparr>"

definition main :: "env \<Rightarrow> bool \<Rightarrow> bool \<Rightarrow> rawData \<Rightarrow> progress option \<Rightarrow> ending \<times> state" where
  "main env test resume raw pfile =
     (let pr = loadProgress resume pfile;
          s0 = startState raw pfile pr;
          targets = selectTargets test (completed pr) (details s0)
      in if targets = [] then (Finished, s0)
         else (let s1 = s0\<lparr>progress := pr\<lparr>total := length (details s0)\<rparr>\<rparr>;
                   ok = gotoOk env (navs s1);
                   s2 = emit (Goto ok) (s1\<lparr>navs := Suc (navs s1)\<rparr>)
               in if \<not> ok then (Crashed, s2)
                  else (let s3 = emit (Wait 3000) s2
                        in if \<not> wsReady env then (Exited 1, emit CloseBrowser s3)
                           else runLoop env test targets 0 s3)))"

section \<open>Vocabulary of the properties\<close>

text \<open>The two block indicators of a parsed reply as line 71 reads them: its message is a
  string that contains the block phrase; the flag \<^verbatim>\<open>ipcheck\<close> of its payload, which is the
  \<^verbatim>\<open>data\<close> field of the body when that is truthy and the body itself otherwise, is present
  and false.  \<open>bodyFlagFalse\<close> is the flag read from the body itself.\<close>

definition messageHasPhrase :: "json \<Rightarrow> bool" where
  "messageHasPhrase j =
     (case get j ''message'' of Some (JStr s) \<Rightarrow> includesStr s blockPhrase | _ \<Rightarrow> False)"

definition payloadFlagFalse :: "json \<Rightarrow> bool" where
  "payloadFlagFalse j = (get (dataOf j) ''ipcheck'' = Some (JBool False))"

definition bodyFlagFalse :: "json \<Rightarrow> bool" where
  "bodyFlagFalse j = (get j ''ipcheck'' = Some (JBool False))"

text \<open>The message of a reply is absent, null, a string or an array: the values on which
  \<^verbatim>\<open>json.message?.includes\<close> does not throw.\<close>

definition plainMessage :: "json \<Rightarrow> bool" where
  "plainMessage j =
     (case get j ''message'' of
        None \<Rightarrow> True
      | Some JNull \<Rightarrow> True
      | Some (JStr s) \<Rightarrow> True
      | Some (JArr xs) \<Rightarrow> True
      | Some _ \<Rightarrow> False)"

text \<open>The \<^verbatim>\<open>Fetch\<close> effects of a trace, in order, as index and the two key fields.\<close>

fun fetchesOf :: "event list \<Rightarrow> (nat \<times> string \<times> string) list" where
  "fetchesOf [] = []"
| "fetchesOf (Fetch j c n # es) = (j, c, n) # fetchesOf es"
| "fetchesOf (e # es) = fetchesOf es"

text \<open>The periodic save of lines 281 to 284 is due in the pass for index \<open>i\<close> and one of
  its two writes throws.\<close>

definition periodicSaveFails :: "env \<Rightarrow> bool \<Rightarrow> nat \<Rightarrow> state \<Rightarrow> bool" where
  "periodicSaveFails env test i s \<longleftrightarrow>
     (i mod 10 = 0 \<or> test) \<and> (\<not> writeOk env (writes s) \<or> \<not> writeOk env (Suc (writes s)))"

text \<open>The pass for a result \<open>r\<close> that is not \<open>Blocked\<close> settles its item, the entry \<open>e\<close>:
  nothing in lines 252 to 275 throws, so that lines 277 and 278 are reached.\<close>

definition settles :: "env \<Rightarrow> json \<Rightarrow> entry \<Rightarrow> bool" where
  "settles env r e \<longleftrightarrow> fst (merge (numGt0 env) r e)"

text \<open>Both files hold what is in memory.\<close>

definition persisted :: "state \<Rightarrow> bool" where
  "persisted s \<longleftrightarrow>
     detailsFile s = serializeDetails (rawData s) (details s) \<and> progressFile s = Some (progress s)"

text \<open>The last two effects of a trace are a write that threw and the pause of line 290.\<close>

definition endedByFailedWrite :: "event list \<Rightarrow> bool" where
  "endedByFailedWrite tr =
     (case rev tr of
        w # ev # before \<Rightarrow>
          w = Wait DELAY_BETWEEN \<and> (ev = WriteDetails False \<or> ev = WriteProgress False)
      | _ \<Rightarrow> False)"

text \<open>A trace without its pauses and navigations.\<close>

fun writesAndFetches :: "event list \<Rightarrow> event list" where
  "writesAndFetches [] = []"
| "writesAndFetches (Wait ms # es) = writesAndFetches es"
| "writesAndFetches (Goto ok # es) = writesAndFetches es"
| "writesAndFetches (e # es) = e # writesAndFetches es"

text \<open>A list of fetches for the targets from index \<open>i\<close> on: the indices do not decrease,
  and each fetch carries the key fields of the target at its index.\<close>

definition inOrderFrom :: "entry list \<Rightarrow> nat \<Rightarrow> (nat \<times> string \<times> string) list \<Rightarrow> bool" where
  "inOrderFrom targets i fs \<longleftrightarrow>
     sorted (map fst fs) \<and>
     (\<forall>(j, c, n) \<in> set fs.
        i \<le> j \<and> j < length targets \<and> c = cortOfcCd (targets ! j) \<and> n = csNo (targets ! j))"

text \<open>No fetch of the environment resolves to a result classified \<open>Blocked\<close>.\<close>

definition neverBlocked :: "env \<Rightarrow> bool" where
  "neverBlocked env \<longleftrightarrow>
     (\<forall>n. case fetchAt env n of
             Rejected \<Rightarrow> True
           | Resolved reply \<Rightarrow> classify (scrapeDocuments reply) \<noteq> Blocked)"

text \<open>The four properties a merge may assign, and what it means for an entry \<open>e'\<close> to
  differ from \<open>e\<close> in nothing else and to have lost no property.\<close>

definition mergeFields :: "string set" where
  "mergeFields = {''deliveryRecords'', ''documentRecords'', ''mergerRecords'', ''priorCaseInfo''}"

definition framed :: "entry \<Rightarrow> entry \<Rightarrow> bool" where
  "framed e e' \<longleftrightarrow>
     cortOfcCd e' = cortOfcCd e \<and> csNo e' = csNo e \<and> courtName e' = courtName e \<and>
     caseNumber e' = caseNumber e \<and>
     (\<forall>k. k \<notin> mergeFields \<longrightarrow> getProp e' k = getProp e k) \<and>
     (\<forall>k. getProp e k \<noteq> None \<longrightarrow> getProp e' k \<noteq> None)"


subsection \<open>Sample data for the closed instances\<close>

definition successReply :: json where
  "successReply = JObj [(''dlt_dlvrDtsLst'', JArr [JStr ''served'']),
     (''dlt_mrgDpcnSbxLst'', JArr []), (''dma_trnscsBfCsInfo'', JObj [])]"

definition entryA :: entry where
  "entryA = \<lparr>cortOfcCd = ''A'', csNo = ''1'', courtName = ''Seoul'', caseNumber = ''2024-1'',
     props = []\<rparr>"

definition entryB :: entry where
  "entryB = \<lparr>cortOfcCd = ''B'', csNo = ''2'', courtName = ''Busan'', caseNumber = ''2024-2'',
     props = [(''deliveryRecords'', JArr [])]\<rparr>"

definition entryC :: entry where
  "entryC = \<lparr>cortOfcCd = ''C'', csNo = ''3'', courtName = ''Daegu'', caseNumber = ''2024-3'',
     props = []\<rparr>"

definition entryD :: entry where
  "entryD = \<lparr>cortOfcCd = ''D'', csNo = ''4'', courtName = ''Ulsan'', caseNumber = ''2024-4'',
     props = []\<rparr>"

text \<open>Four replies, one for each outcome; an environment that answers the \<open>n\<close>-th fetch
  with \<open>replies n\<close>, lets every navigation complete and the \<open>n\<close>-th write complete when
  \<open>w n\<close>; the state at the start of the loop for a store of three entries; and the state
  after two blocked passes for the first of them.\<close>

definition blockedReply :: raw where
  "blockedReply = Parsed 200 (JObj [(''message'', JStr blockPhrase)])"

definition okReply :: raw where
  "okReply = Parsed 200 successReply"

definition noDataReply :: raw where
  "noDataReply = Parsed 550 (JObj [])"

definition errorReply :: raw where
  "errorReply = Parsed 500 (JObj [])"

definition envOf :: "(nat \<Rightarrow> raw) \<Rightarrow> (nat \<Rightarrow> bool) \<Rightarrow> env" where
  "envOf replies w = \<lparr>fetchAt = (\<lambda>n. Resolved (replies n)), gotoOk = (\<lambda>n. True), writeOk = w,
     wsReady = True, numGt0 = (\<lambda>v. None)\<rparr>"

definition stateABC :: state where
  "stateABC = startState (RawSeq [entryA, entryB, entryC]) None freshProgress"

definition twoBlocksThenError :: "nat \<Rightarrow> raw" where
  "twoBlocksThenError n = (if n < 2 then blockedReply else errorReply)"

definition afterTwoBlocks :: state where
  "afterTwoBlocks =
     snd (body (envOf twoBlocksThenError (\<lambda>n. True)) False 0 entryA
       (snd (body (envOf twoBlocksThenError (\<lambda>n. True)) False 0 entryA stateABC)))"

definition okThenBlocked :: "nat \<Rightarrow> raw" where
  "okThenBlocked n = (if n = 0 then okReply else blockedReply)"

definition okThenError :: "nat \<Rightarrow> raw" where
  "okThenError n = (if n = 0 then okReply else errorReply)"

text \<open>A body beside whose \<^verbatim>\<open>data\<close> wrapper the flag is false; an error reply whose message
  is an array holding an object with a property \<^verbatim>\<open>toString\<close>; an environment whose first
  navigation (that of line 183) completes and whose later ones throw.\<close>

definition wrappedReply :: json where
  "wrappedReply = JObj [(''data'', JObj [(''x'', JNum 1)]), (''ipcheck'', JBool False)]"

definition oddErrorReply :: raw where
  "oddErrorReply = Parsed 500 (JObj [(''message'',
     JArr [JObj [(''toString'', JBool True), (''valueOf'', JBool True)]])])"

definition blockedThenOk :: "nat \<Rightarrow> raw" where
  "blockedThenOk n = (if n = 0 then blockedReply else okReply)"

definition okThenOddError :: "nat \<Rightarrow> raw" where
  "okThenOddError n = (if n = 0 then okReply else oddErrorReply)"

definition envLost :: "(nat \<Rightarrow> raw) \<Rightarrow> env" where
  "envLost replies = \<lparr>fetchAt = (\<lambda>n. Resolved (replies n)), gotoOk = (\<lambda>n. n = 0),
     writeOk = (\<lambda>n. True), wsReady = True, numGt0 = (\<lambda>v. None)\<rparr>"

text \<open>A checkpoint that marks the first two of four items.\<close>

definition checkpointAB :: progress where
  "checkpointAB = \<lparr>completed = [''A1'', ''B2''], total = 4\<rparr>"

section \<open>The classifier\<close>

lemma classify_blocked_obj: "classify (JObj ((''__blocked'', JBool True) # ps)) = Blocked"
  by (simp add: classify_def)

lemma indicator_not_null: "messageHasPhrase j \<or> payloadFlagFalse j \<Longrightarrow> j \<noteq> JNull"
  by (auto simp: messageHasPhrase_def payloadFlagFalse_def dataOf_def)

lemma plain_includes: "plainMessage j \<Longrightarrow> \<exists>b. messageIncludes (get j ''message'') = Some b"
  by (auto simp: plainMessage_def split: option.splits json.splits)

lemma phrase_includes: "messageHasPhrase j \<Longrightarrow> messageIncludes (get j ''message'') = Some True"
  by (auto simp: messageHasPhrase_def split: option.splits json.splits)

text \<open>
  Claim C3, as the code has it.  For a reply whose body parses and whose message is absent,
  null, a string or an array: when the message is a string containing the block phrase, or
  the flag \<^verbatim>\<open>ipcheck\<close> of the payload (the \<^verbatim>\<open>data\<close> field of the body when that is truthy,
  otherwise the body itself) is present and false, the result is classified \<open>Blocked\<close>
  whatever the HTTP status \<open>st\<close> is, in particular for a status outside 200..299 and for 550.
  Block detection (line 71) comes before the tests of lines 75 and 78.
\<close>

theorem block_detection_first:
  assumes "plainMessage j"
    and "messageHasPhrase j \<or> payloadFlagFalse j"
  shows "classify (scrapeDocuments (Parsed st j)) = Blocked"
proof -
  from assms(2) have nn: "j \<noteq> JNull" by (rule indicator_not_null)
  from assms(1) obtain b where b: "messageIncludes (get j ''message'') = Some b"
    using plain_includes by blast
  from assms(2) have "b \<or> get (dataOf j) ''ipcheck'' = Some (JBool False)"
    using b phrase_includes [of j] by (auto simp: payloadFlagFalse_def)
  with nn b show ?thesis
    by (simp add: classify_blocked_obj)
qed

text \<open>Claim C3, instances: a reply with status 500, and one with status 550, whose message
  contains the block phrase; a reply with status 550 that carries the flag inside its
  \<^verbatim>\<open>data\<close> wrapper.\<close>

theorem block_detection_first_witness:
  "plainMessage (JObj [(''message'', JStr (''IP '' @ blockPhrase))]) \<and>
   messageHasPhrase (JObj [(''message'', JStr (''IP '' @ blockPhrase))]) \<and>
   classify (scrapeDocuments (Parsed 500 (JObj [(''message'', JStr (''IP '' @ blockPhrase))])))
     = Blocked \<and>
   classify (scrapeDocuments (Parsed 550 (JObj [(''message'', JStr (''IP '' @ blockPhrase))])))
     = Blocked \<and>
   payloadFlagFalse (JObj [(''data'', JObj [(''ipcheck'', JBool False)])]) \<and>
   classify (scrapeDocuments (Parsed 550 (JObj [(''data'', JObj [(''ipcheck'', JBool False)])])))
     = Blocked"
proof -
  let ?j = "JObj [(''message'', JStr (''IP '' @ blockPhrase))]"
  let ?k = "JObj [(''data'', JObj [(''ipcheck'', JBool False)])]"
  have p: "plainMessage ?j" by (simp add: plainMessage_def)
  have m: "messageHasPhrase ?j" by (simp add: messageHasPhrase_def blockPhrase_def)
  from m have i: "messageHasPhrase ?j \<or> payloadFlagFalse ?j" ..
  have q: "plainMessage ?k" by (simp add: plainMessage_def)
  have f: "payloadFlagFalse ?k" by (simp add: payloadFlagFalse_def dataOf_def)
  from f have h: "messageHasPhrase ?k \<or> payloadFlagFalse ?k" ..
  from p m f block_detection_first [OF p i, of 500] block_detection_first [OF p i, of 550]
    block_detection_first [OF q h, of 550]
  show ?thesis by blast
qed

text \<open>Claim C3 as stated fails: the body \<^verbatim>\<open>{"data": {"x": 1}, "ipcheck": false}\<close> carries
  the block flag, present and false, and has no message; line 70 takes the \<^verbatim>\<open>data\<close> wrapper
  for the payload and line 71 looks for the flag there, so the reply is not detected as
  blocked: with status 200 the result is classified \<open>Success\<close>, with 500 \<open>Error\<close>, with 550
  \<open>NoData\<close>.\<close>

theorem flag_beside_data_wrapper:
  "bodyFlagFalse wrappedReply \<and> plainMessage wrappedReply \<and>
   classify (scrapeDocuments (Parsed 200 wrappedReply)) = Success \<and>
   classify (scrapeDocuments (Parsed 500 wrappedReply)) = Error \<and>
   classify (scrapeDocuments (Parsed 550 wrappedReply)) = NoData"
  by (simp add: wrappedReply_def bodyFlagFalse_def plainMessage_def dataOf_def classify_def
      errorObj_def statusOk_def)

section \<open>Saving the record store\<close>













section \<open>The merge\<close>

lemma props_setProp [simp]:
  "getProp (setProp k v e) k' = (if k' = k then Some v else getProp e k')"
  by (simp add: getProp_def setProp_def update_conv')

lemma fields_setProp [simp]:
  "cortOfcCd (setProp k v e) = cortOfcCd e" "csNo (setProp k v e) = csNo e"
  "courtName (setProp k v e) = courtName e" "caseNumber (setProp k v e) = caseNumber e"
  by (simp_all add: setProp_def)

lemma framed_refl: "framed e e"
  by (simp add: framed_def)

lemma framed_setProp: "k \<in> mergeFields \<Longrightarrow> framed e e' \<Longrightarrow> framed e (setProp k v e')"
  by (auto simp: framed_def)

lemma mergeFields_mem:
  "''deliveryRecords'' \<in> mergeFields" "''documentRecords'' \<in> mergeFields"
  "''mergerRecords'' \<in> mergeFields" "''priorCaseInfo'' \<in> mergeFields"
  by (simp_all add: mergeFields_def)

lemma framed_mergeEmpty: "framed e (mergeEmpty e)"
  unfolding mergeEmpty_def
  by (intro framed_setProp mergeFields_mem framed_refl)

lemma framed_mergeSuccess: "framed e (snd (mergeSuccess cmp r e))"
proof -
  let ?e1 = "setProp ''documentRecords'' (orElse (get r ''dlt_ofdocDtsLst'') (JArr []))
     (setProp ''deliveryRecords'' (orElse (get r ''dlt_dlvrDtsLst'') (JArr [])) e)"
  have f1: "framed e ?e1"
    by (intro framed_setProp mergeFields_mem framed_refl)
  have f2: "framed e (if b then setProp ''mergerRecords'' v ?e1 else ?e1)" for b v
    using f1 by (simp add: framed_setProp mergeFields_mem)
  have f3: "framed e (if c then setProp ''priorCaseInfo'' w
       (if b then setProp ''mergerRecords'' v ?e1 else ?e1)
     else (if b then setProp ''mergerRecords'' v ?e1 else ?e1))" for b c v w
    using f2 [of b v] by (simp add: framed_setProp mergeFields_mem del: props_setProp)
  show ?thesis
    unfolding mergeSuccess_def Let_def
    by (cases "lengthGt0 cmp (orElse (get r ''dlt_mrgDpcnSbxLst'') (JArr []))")
       (simp_all only: option.case snd_conv f1 f3)
qed

lemma merge_entry:
  "fst (snd (merge cmp r e)) =
     (if classify r = Success then snd (mergeSuccess cmp r e) else mergeEmpty e)"
  by (simp add: merge_def split: outcome.split prod.split)

lemma framed_merge: "framed e (fst (snd (merge cmp r e)))"
  by (simp add: merge_entry framed_mergeEmpty framed_mergeSuccess)

lemma mergeSuccess_merger:
  "getProp (snd (mergeSuccess cmp r e)) ''mergerRecords'' =
     (if lengthGt0 cmp (orElse (get r ''dlt_mrgDpcnSbxLst'') (JArr [])) = Some True
      then Some (orElse (get r ''dlt_mrgDpcnSbxLst'') (JArr []))
      else getProp e ''mergerRecords'')"
  unfolding mergeSuccess_def Let_def
  by (cases "lengthGt0 cmp (orElse (get r ''dlt_mrgDpcnSbxLst'') (JArr []))") simp_all

lemma mergeSuccess_prior:
  "getProp (snd (mergeSuccess cmp r e)) ''priorCaseInfo'' =
     (if lengthGt0 cmp (orElse (get r ''dlt_mrgDpcnSbxLst'') (JArr [])) \<noteq> None \<and>
         truthy (orElse (get r ''dma_trnscsBfCsInfo'') JNull) \<and>
         hasOwnKeys (orElse (get r ''dma_trnscsBfCsInfo'') JNull)
      then Some (orElse (get r ''dma_trnscsBfCsInfo'') JNull)
      else getProp e ''priorCaseInfo'')"
  unfolding mergeSuccess_def Let_def
  by (cases "lengthGt0 cmp (orElse (get r ''dlt_mrgDpcnSbxLst'') (JArr []))") simp_all

lemma mergeEmpty_others:
  "getProp (mergeEmpty e) ''mergerRecords'' = getProp e ''mergerRecords''"
  "getProp (mergeEmpty e) ''priorCaseInfo'' = getProp e ''priorCaseInfo''"
  by (simp_all add: mergeEmpty_def)


lemma orElse_truthy: "orElse x d \<noteq> d \<Longrightarrow> \<exists>v. x = Some v \<and> truthy v \<and> orElse x d = v"
  by (cases x) (auto split: if_splits)

lemma merge_merger_changed:
  assumes "getProp (fst (snd (merge cmp r e))) ''mergerRecords'' \<noteq> getProp e ''mergerRecords''"
  shows "classify r = Success \<and>
    (\<exists>v. get r ''dlt_mrgDpcnSbxLst'' = Some v \<and> lengthGt0 cmp v = Some True \<and>
         getProp (fst (snd (merge cmp r e))) ''mergerRecords'' = Some v)"
proof -
  let ?ml = "orElse (get r ''dlt_mrgDpcnSbxLst'') (JArr [])"
  from assms have s: "classify r = Success"
    by (auto simp: merge_entry mergeEmpty_others split: if_splits)
  with assms have g: "lengthGt0 cmp ?ml = Some True"
    by (auto simp: merge_entry mergeSuccess_merger split: if_splits)
  then have "?ml \<noteq> JArr []" by auto
  then obtain v where v: "get r ''dlt_mrgDpcnSbxLst'' = Some v" "?ml = v"
    using orElse_truthy by blast
  with s g show ?thesis
    by (simp add: merge_entry mergeSuccess_merger)
qed

lemma merge_prior_changed:
  assumes "getProp (fst (snd (merge cmp r e))) ''priorCaseInfo'' \<noteq> getProp e ''priorCaseInfo''"
  shows "classify r = Success \<and>
    (\<exists>v. get r ''dma_trnscsBfCsInfo'' = Some v \<and> truthy v \<and> hasOwnKeys v \<and>
         getProp (fst (snd (merge cmp r e))) ''priorCaseInfo'' = Some v)"
proof -
  let ?pc = "orElse (get r ''dma_trnscsBfCsInfo'') JNull"
  from assms have s: "classify r = Success"
    by (auto simp: merge_entry mergeEmpty_others split: if_splits)
  with assms have g: "lengthGt0 cmp (orElse (get r ''dlt_mrgDpcnSbxLst'') (JArr [])) \<noteq> None"
      "truthy ?pc" "hasOwnKeys ?pc"
    by (auto simp: merge_entry mergeSuccess_prior split: if_splits)
  then have "?pc \<noteq> JNull" by auto
  then obtain v where v: "get r ''dma_trnscsBfCsInfo'' = Some v" "?pc = v"
    using orElse_truthy by blast
  with s g show ?thesis
    by (simp add: merge_entry mergeSuccess_prior)
qed

text \<open>
  Claim C7.  Merging a result \<open>r\<close> that is not \<open>Blocked\<close> into an entry \<open>e\<close> gives an entry
  \<open>e'\<close> with the same four declared fields, the same value for every property other than
  \<^verbatim>\<open>deliveryRecords\<close>, \<^verbatim>\<open>documentRecords\<close>, \<^verbatim>\<open>mergerRecords\<close> and \<^verbatim>\<open>priorCaseInfo\<close>, and
  no property removed.  \<^verbatim>\<open>mergerRecords\<close> changes only for a \<open>Success\<close> whose merger list
  has a positive length, and then holds that list; \<^verbatim>\<open>priorCaseInfo\<close> changes only for a
  \<open>Success\<close> whose prior case is present and has a key, and then holds it.  In particular
  a missing or empty merger list, and a missing, null or empty prior case, leave them alone.
\<close>

theorem merge_frame:
  assumes "merge cmp r e = (ok, e', err)"
  shows "cortOfcCd e' = cortOfcCd e \<and> csNo e' = csNo e \<and>
     courtName e' = courtName e \<and> caseNumber e' = caseNumber e \<and>
     (\<forall>k. k \<notin> mergeFields \<longrightarrow> getProp e' k = getProp e k) \<and>
     (\<forall>k. getProp e k \<noteq> None \<longrightarrow> getProp e' k \<noteq> None) \<and>
     (getProp e' ''mergerRecords'' \<noteq> getProp e ''mergerRecords'' \<longrightarrow>
        classify r = Success \<and>
        (\<exists>v. get r ''dlt_mrgDpcnSbxLst'' = Some v \<and> lengthGt0 cmp v = Some True \<and>
             getProp e' ''mergerRecords'' = Some v)) \<and>
     (getProp e' ''priorCaseInfo'' \<noteq> getProp e ''priorCaseInfo'' \<longrightarrow>
        classify r = Success \<and>
        (\<exists>v. get r ''dma_trnscsBfCsInfo'' = Some v \<and> truthy v \<and> hasOwnKeys v \<and>
             getProp e' ''priorCaseInfo'' = Some v)) \<and>
     (get r ''dlt_mrgDpcnSbxLst'' = None \<or> get r ''dlt_mrgDpcnSbxLst'' = Some (JArr []) \<longrightarrow>
        getProp e' ''mergerRecords'' = getProp e ''mergerRecords'') \<and>
     (get r ''dma_trnscsBfCsInfo'' = None \<or> get r ''dma_trnscsBfCsInfo'' = Some JNull \<or>
      get r ''dma_trnscsBfCsInfo'' = Some (JObj []) \<longrightarrow>
        getProp e' ''priorCaseInfo'' = getProp e ''priorCaseInfo'')"
proof -
  from assms have e': "e' = fst (snd (merge cmp r e))" by simp
  have fr: "framed e e'" unfolding e' by (rule framed_merge)
  have m: "getProp e' ''mergerRecords'' \<noteq> getProp e ''mergerRecords'' \<longrightarrow>
        classify r = Success \<and>
        (\<exists>v. get r ''dlt_mrgDpcnSbxLst'' = Some v \<and> lengthGt0 cmp v = Some True \<and>
             getProp e' ''mergerRecords'' = Some v)"
    unfolding e' using merge_merger_changed [of cmp r e] by blast
  have p: "getProp e' ''priorCaseInfo'' \<noteq> getProp e ''priorCaseInfo'' \<longrightarrow>
        classify r = Success \<and>
        (\<exists>v. get r ''dma_trnscsBfCsInfo'' = Some v \<and> truthy v \<and> hasOwnKeys v \<and>
             getProp e' ''priorCaseInfo'' = Some v)"
    unfolding e' using merge_prior_changed [of cmp r e] by blast
  have m0: "get r ''dlt_mrgDpcnSbxLst'' = None \<or> get r ''dlt_mrgDpcnSbxLst'' = Some (JArr []) \<longrightarrow>
        getProp e' ''mergerRecords'' = getProp e ''mergerRecords''"
    using m by auto
  have p0: "get r ''dma_trnscsBfCsInfo'' = None \<or> get r ''dma_trnscsBfCsInfo'' = Some JNull \<or>
      get r ''dma_trnscsBfCsInfo'' = Some (JObj []) \<longrightarrow>
        getProp e' ''priorCaseInfo'' = getProp e ''priorCaseInfo''"
    using p by auto
  from fr have "cortOfcCd e' = cortOfcCd e \<and> csNo e' = csNo e \<and>
     courtName e' = courtName e \<and> caseNumber e' = caseNumber e \<and>
     (\<forall>k. k \<notin> mergeFields \<longrightarrow> getProp e' k = getProp e k) \<and>
     (\<forall>k. getProp e k \<noteq> None \<longrightarrow> getProp e' k \<noteq> None)"
    unfolding framed_def .
  with m p m0 p0 show ?thesis by blast
qed

text \<open>Claim C7, instance: a \<open>Success\<close> with one delivery record, an empty merger list and
  an empty prior case, merged into \<open>entryA\<close>.\<close>

theorem merge_frame_witness:
  "merge (\<lambda>v. None) successReply entryA =
     (True, entryA\<lparr>props := [(''deliveryRecords'', JArr [JStr ''served'']),
                              (''documentRecords'', JArr [])]\<rparr>, False) \<and>
   courtName (entryA\<lparr>props := [(''deliveryRecords'', JArr [JStr ''served'']),
                              (''documentRecords'', JArr [])]\<rparr>) = courtName entryA \<and>
   getProp (entryA\<lparr>props := [(''deliveryRecords'', JArr [JStr ''served'']),
                              (''documentRecords'', JArr [])]\<rparr>) ''mergerRecords''
     = getProp entryA ''mergerRecords''"
proof -
  let ?e' = "entryA\<lparr>props := [(''deliveryRecords'', JArr [JStr ''served'']),
                              (''documentRecords'', JArr [])]\<rparr>"
  have h: "merge (\<lambda>v. None) successReply entryA = (True, ?e', False)"
    by (simp add: merge_def classify_def successReply_def mergeSuccess_def logSuccess_def
        setProp_def entryA_def)
  have g: "get successReply ''dlt_mrgDpcnSbxLst'' = Some (JArr [])"
    by (simp add: successReply_def)
  from h g merge_frame [OF h] show ?thesis by blast
qed

section \<open>Passes through the loop\<close>

subsection \<open>Finding the entry of a target\<close>



lemma detailMap_fold_found:
  "d \<in> set ds \<or> m (keyOf d) \<noteq> None \<Longrightarrow>
   fold (\<lambda>(j, d) m. m(keyOf d \<mapsto> j)) (enumerate n ds) m (keyOf d) \<noteq> None"
proof (induction ds arbitrary: n m)
  case Nil
  then show ?case by simp
next
  case (Cons x ds)
  have "d \<in> set ds \<or> (m(keyOf x \<mapsto> n)) (keyOf d) \<noteq> None"
    using Cons.prems by auto
  from Cons.IH [where m = "m(keyOf x \<mapsto> n)" and n = "Suc n", OF this] show ?case
    by (simp del: fun_upd_apply)
qed

lemma detailMap_found: "d \<in> set ds \<Longrightarrow> detailMap ds (keyOf d) \<noteq> None"
  unfolding detailMap_def by (rule detailMap_fold_found) simp

lemma detailMap_fold_keys:
  "map keyOf ds = map keyOf ds' \<Longrightarrow>
   fold (\<lambda>(j, d) m. m(keyOf d \<mapsto> j)) (enumerate n ds) m =
   fold (\<lambda>(j, d) m. m(keyOf d \<mapsto> j)) (enumerate n ds') m"
proof (induction ds arbitrary: ds' n m)
  case Nil
  then show ?case by simp
next
  case (Cons d ds)
  then obtain d' ds'' where ds': "ds' = d' # ds''" "keyOf d = keyOf d'" "map keyOf ds = map keyOf ds''"
    by (cases ds') auto
  with Cons.IH [where ds' = ds'' and n = "Suc n" and m = "m(keyOf d \<mapsto> n)"] show ?case
    by (simp del: fun_upd_apply)
qed

lemma detailMap_keys: "map keyOf ds = map keyOf ds' \<Longrightarrow> detailMap ds = detailMap ds'"
  unfolding detailMap_def by (rule detailMap_fold_keys)


subsection \<open>A blocked fetch\<close>

lemma details_batchRest [simp]: "details (batchRest i s) = details s"
  and progress_batchRest [simp]: "progress (batchRest i s) = progress s"
  and fetches_batchRest [simp]: "fetches (batchRest i s) = fetches s"
  and navs_batchRest [simp]: "navs (batchRest i s) = navs s"
  and writes_batchRest [simp]: "writes (batchRest i s) = writes s"
  and cb_batchRest [simp]: "consecutiveBlocks (batchRest i s) = consecutiveBlocks s"
  and success_batchRest [simp]: "success (batchRest i s) = success s"
  and errors_batchRest [simp]: "errors (batchRest i s) = errors s"
  and rawData_batchRest [simp]: "rawData (batchRest i s) = rawData s"
  and detailsFile_batchRest [simp]: "detailsFile (batchRest i s) = detailsFile s"
  and progressFile_batchRest [simp]: "progressFile (batchRest i s) = progressFile s"
  by (simp_all add: batchRest_def emit_def)

lemma body_found:
  "detailMap (details s) (keyOf t) = Some j \<Longrightarrow>
   body env test i t s = attempt env test i t j (batchRest i s)"
  by (simp add: body_def Let_def)

lemma attempt_blocked:
  assumes "fetchAt env (fetches s) = Resolved reply"
    and "classify (scrapeDocuments reply) = Blocked"
  shows "attempt env test i t j s =
     onBlocked env (emit (Fetch i (cortOfcCd t) (csNo t)) (s\<lparr>fetches := Suc (fetches s)\<rparr>))"
  using assms by (simp add: attempt_def Let_def)

lemma onBlocked_below:
  assumes "Suc (consecutiveBlocks s) < MAX_CONSECUTIVE_BLOCKS"
  shows "onBlocked env s = cooldown env (s\<lparr>consecutiveBlocks := Suc (consecutiveBlocks s)\<rparr>)"
  using assms by (simp add: onBlocked_def Let_def)

lemma onBlocked_limit:
  assumes "MAX_CONSECUTIVE_BLOCKS \<le> Suc (consecutiveBlocks s)"
  shows "onBlocked env s = abortRun env (s\<lparr>consecutiveBlocks := Suc (consecutiveBlocks s)\<rparr>)"
  using assms by (simp add: onBlocked_def Let_def)

lemma cooldown_fields:
  "details (snd (cooldown env s)) = details s"
  "progress (snd (cooldown env s)) = progress s"
  "consecutiveBlocks (snd (cooldown env s)) = consecutiveBlocks s"
  by (simp_all add: cooldown_def Let_def caught_def delayed_def emit_def)

lemma cooldown_ok:
  "gotoOk env (navs s) \<Longrightarrow>
   fst (cooldown env s) = Retry \<and>
   trace (snd (cooldown env s)) = trace s @ [Wait IP_BLOCK_WAIT, Goto True, Wait 3000]"
  by (simp add: cooldown_def Let_def emit_def)

lemma runLoop_Retry:
  "i < length targets \<Longrightarrow> fst (body env test i (targets ! i) s) = Retry \<Longrightarrow>
   runLoop env test targets i s = runLoop env test targets i (snd (body env test i (targets ! i) s))"
  by (subst runLoop.simps) (simp add: Let_def)

lemma runLoop_Advance:
  "i < length targets \<Longrightarrow> fst (body env test i (targets ! i) s) = Advance \<Longrightarrow>
   runLoop env test targets i s =
     runLoop env test targets (Suc i) (snd (body env test i (targets ! i) s))"
  by (subst runLoop.simps) (simp add: Let_def)

lemma runLoop_Exit:
  "i < length targets \<Longrightarrow> fst (body env test i (targets ! i) s) = Exit c \<Longrightarrow>
   runLoop env test targets i s = (Exited c, snd (body env test i (targets ! i) s))"
  by (subst runLoop.simps) (simp add: Let_def)

lemma runLoop_done:
  "\<not> i < length targets \<Longrightarrow> runLoop env test targets i s = finalSave env s"
  by (subst runLoop.simps) simp

subsection \<open>The fetches of a run\<close>

lemma fetchesOf_append: "fetchesOf (xs @ ys) = fetchesOf xs @ fetchesOf ys"
  by (induction xs rule: fetchesOf.induct) simp_all

lemma fetchesOf_emit:
  "fetchesOf (trace (emit e s)) = fetchesOf (trace s) @ fetchesOf [e]"
  by (simp add: emit_def fetchesOf_append)

lemma fetches_caught: "fetchesOf (trace (snd (caught s))) = fetchesOf (trace s)"
  by (simp add: caught_def delayed_def emit_def fetchesOf_append)

lemma fetches_saves:
  "fetchesOf (trace (snd (saveProgress env s))) = fetchesOf (trace s)"
  "fetchesOf (trace (snd (saveDetails env s))) = fetchesOf (trace s)"
  by (simp_all add: saveProgress_def saveDetails_def Let_def emit_def fetchesOf_append)

lemma fetches_abortRun: "fetchesOf (trace (snd (abortRun env s))) = fetchesOf (trace s)"
  by (simp add: abortRun_def saveProgress_def saveDetails_def Let_def emit_def caught_def
      delayed_def fetchesOf_append)

lemma fetches_cooldown: "fetchesOf (trace (snd (cooldown env s))) = fetchesOf (trace s)"
  by (simp add: cooldown_def Let_def emit_def caught_def delayed_def fetchesOf_append)

lemma fetches_onBlocked: "fetchesOf (trace (snd (onBlocked env s))) = fetchesOf (trace s)"
  by (simp add: onBlocked_def Let_def fetches_abortRun fetches_cooldown)

lemma fetches_settle: "fetchesOf (trace (snd (settle env test i k s))) = fetchesOf (trace s)"
  by (simp add: settle_def saveProgress_def saveDetails_def Let_def emit_def caught_def
      delayed_def markCompleted_def fetchesOf_append)

lemma fetches_onResult:
  "fetchesOf (trace (snd (onResult env test i k j r s))) = fetchesOf (trace s)"
  by (cases "merge (numGt0 env) r (details s ! j)")
     (simp add: onResult_def Let_def fetches_settle fetches_caught)

lemma fetchesOf_batchRest: "fetchesOf (trace (batchRest i s)) = fetchesOf (trace s)"
  by (simp add: batchRest_def emit_def fetchesOf_append)

lemma fetches_attempt:
  "fetchesOf (trace (snd (attempt env test i t j s))) =
     fetchesOf (trace s) @ [(i, cortOfcCd t, csNo t)]"
  by (simp add: attempt_def Let_def fetches_caught fetches_onBlocked fetches_onResult
      emit_def fetchesOf_append split: fetched.split)

lemma fetches_body:
  "fetchesOf (trace (snd (body env test i t s))) =
     fetchesOf (trace s) @
       (if detailMap (details s) (keyOf t) = None then [] else [(i, cortOfcCd t, csNo t)])"
  by (auto simp: body_def Let_def fetches_attempt fetchesOf_batchRest markCompleted_def)

lemma fetches_finalSave: "fetchesOf (trace (snd (finalSave env s))) = fetchesOf (trace s)"
  by (simp add: finalSave_def saveProgress_def saveDetails_def Let_def emit_def
      fetchesOf_append)

lemma inOrderFrom_Nil: "inOrderFrom targets i []"
  by (simp add: inOrderFrom_def)

lemma inOrderFrom_Cons:
  "i < length targets \<Longrightarrow> inOrderFrom targets i fs \<Longrightarrow>
   inOrderFrom targets i ((i, cortOfcCd (targets ! i), csNo (targets ! i)) # fs)"
  by (auto simp: inOrderFrom_def)

lemma inOrderFrom_Suc: "inOrderFrom targets (Suc i) fs \<Longrightarrow> inOrderFrom targets i fs"
  by (auto simp: inOrderFrom_def)

lemma runLoop_fetches:
  "\<exists>new. fetchesOf (trace (snd (runLoop env test targets i s))) = fetchesOf (trace s) @ new \<and>
         inOrderFrom targets i new"
proof (induction env test targets i s rule: runLoop.induct)
  case (1 env test targets i s)
  let ?r = "body env test i (targets ! i) s"
  show ?case
  proof (cases "i < length targets")
    case False
    then show ?thesis
      by (simp add: runLoop_done fetches_finalSave inOrderFrom_Nil)
  next
    case True
    obtain one where one: "fetchesOf (trace (snd ?r)) = fetchesOf (trace s) @ one"
      "inOrderFrom targets i one"
      using fetches_body [of env test i "targets ! i" s] True
      by (cases "detailMap (details s) (keyOf (targets ! i)) = None")
         (auto simp: inOrderFrom_Nil inOrderFrom_def)
    have app: "inOrderFrom targets i (one @ new)" if "inOrderFrom targets i new" for new
      using that one(2) fetches_body [of env test i "targets ! i" s] one(1)
      by (cases "detailMap (details s) (keyOf (targets ! i)) = None")
         (auto simp: inOrderFrom_def)
    show ?thesis
    proof (cases "fst ?r")
      case Advance
      from "1.IH"(1) [OF True refl Advance] obtain new where
        n: "fetchesOf (trace (snd (runLoop env test targets (Suc i) (snd ?r)))) =
            fetchesOf (trace (snd ?r)) @ new" "inOrderFrom targets (Suc i) new"
        by blast
      from n(2) have "inOrderFrom targets i new" by (rule inOrderFrom_Suc)
      then have "inOrderFrom targets i (one @ new)" by (rule app)
      with n(1) one(1) show ?thesis
        by (auto simp: runLoop_Advance [OF True Advance])
    next
      case Retry
      from "1.IH"(2) [OF True refl Retry] obtain new where
        n: "fetchesOf (trace (snd (runLoop env test targets i (snd ?r)))) =
            fetchesOf (trace (snd ?r)) @ new" "inOrderFrom targets i new"
        by blast
      from n(2) have "inOrderFrom targets i (one @ new)" by (rule app)
      with n(1) one(1) show ?thesis
        by (auto simp: runLoop_Retry [OF True Retry])
    next
      case (Exit c)
      with one show ?thesis
        by (auto simp: runLoop_Exit [OF True Exit])
    qed
  qed
qed

lemma runLoop_first_fetch:
  assumes "i < length targets" and "detailMap (details s) (keyOf (targets ! i)) \<noteq> None"
  shows "\<exists>rest. fetchesOf (trace (snd (runLoop env test targets i s))) =
     fetchesOf (trace s) @ (i, cortOfcCd (targets ! i), csNo (targets ! i)) # rest"
proof -
  let ?r = "body env test i (targets ! i) s"
  have one: "fetchesOf (trace (snd ?r)) =
      fetchesOf (trace s) @ [(i, cortOfcCd (targets ! i), csNo (targets ! i))]"
    using assms(2) by (simp add: fetches_body)
  show ?thesis
  proof (cases "fst ?r")
    case Advance
    from runLoop_fetches [of env test targets "Suc i" "snd ?r"] obtain new where
      "fetchesOf (trace (snd (runLoop env test targets (Suc i) (snd ?r)))) =
         fetchesOf (trace (snd ?r)) @ new"
      by blast
    with one show ?thesis
      by (simp add: runLoop_Advance [OF assms(1) Advance])
  next
    case Retry
    from runLoop_fetches [of env test targets i "snd ?r"] obtain new where
      "fetchesOf (trace (snd (runLoop env test targets i (snd ?r)))) =
         fetchesOf (trace (snd ?r)) @ new"
      by blast
    with one show ?thesis
      by (simp add: runLoop_Retry [OF assms(1) Retry])
  next
    case (Exit c)
    with one show ?thesis
      by (simp add: runLoop_Exit [OF assms(1) Exit])
  qed
qed

subsection \<open>The retry\<close>

text \<open>
  Claim C1, as the code has it.  A pass for target \<open>t\<close> at index \<open>i\<close> whose fetch resolves
  to a result classified \<open>Blocked\<close>, while the count, once raised by this block, is still
  below \<^verbatim>\<open>MAX_CONSECUTIVE_BLOCKS\<close>: the entries and the checkpoint (its completed keys among
  it) are what they were, the count is one higher, and after the fetch the pass has waited
  \<^verbatim>\<open>IP_BLOCK_WAIT\<close> and started the navigation that re-establishes the session.  When that
  navigation completes, the pass waits three more seconds and ends there, the loop goes on
  at the same index \<open>i\<close>, and the next fetch of the run is again the fetch for \<open>t\<close> at
  index \<open>i\<close>.
\<close>

theorem blocked_retries_same_item:
  assumes "detailMap (details s) (keyOf t) = Some j"
    and "fetchAt env (fetches s) = Resolved reply"
    and "classify (scrapeDocuments reply) = Blocked"
    and "Suc (consecutiveBlocks s) < MAX_CONSECUTIVE_BLOCKS"
    and "i < length targets" and "targets ! i = t"
  shows "details (snd (body env test i t s)) = details s \<and>
     progress (snd (body env test i t s)) = progress s \<and>
     consecutiveBlocks (snd (body env test i t s)) = Suc (consecutiveBlocks s) \<and>
     (\<exists>rest. trace (snd (body env test i t s)) =
        trace (batchRest i s) @
          Fetch i (cortOfcCd t) (csNo t) # Wait IP_BLOCK_WAIT # Goto (gotoOk env (navs s)) # rest) \<and>
     (gotoOk env (navs s) \<longrightarrow>
        fst (body env test i t s) = Retry \<and>
        trace (snd (body env test i t s)) =
          trace (batchRest i s) @
            [Fetch i (cortOfcCd t) (csNo t), Wait IP_BLOCK_WAIT, Goto True, Wait 3000] \<and>
        runLoop env test targets i s = runLoop env test targets i (snd (body env test i t s)) \<and>
        (\<exists>rest. fetchesOf (trace (snd (runLoop env test targets i s))) =
           fetchesOf (trace s) @ (i, cortOfcCd t, csNo t) # (i, cortOfcCd t, csNo t) # rest))"
proof -
  let ?s1 = "emit (Fetch i (cortOfcCd t) (csNo t))
               ((batchRest i s)\<lparr>fetches := Suc (fetches (batchRest i s))\<rparr>)"
  let ?s2 = "?s1\<lparr>consecutiveBlocks := Suc (consecutiveBlocks ?s1)\<rparr>"
  let ?s' = "snd (body env test i t s)"
  have b: "body env test i t s = cooldown env ?s2"
    using assms(1-4)
    by (simp add: body_found attempt_blocked onBlocked_below emit_def)
  have f: "details ?s' = details s" "progress ?s' = progress s"
      "consecutiveBlocks ?s' = Suc (consecutiveBlocks s)"
    unfolding b by (simp_all add: cooldown_fields emit_def)
  have w: "\<exists>rest. trace ?s' =
        trace (batchRest i s) @
          Fetch i (cortOfcCd t) (csNo t) # Wait IP_BLOCK_WAIT # Goto (gotoOk env (navs s)) # rest"
    unfolding b by (simp add: cooldown_def Let_def emit_def caught_def delayed_def)
  have r: "fst (body env test i t s) = Retry \<and>
        trace ?s' =
          trace (batchRest i s) @
            [Fetch i (cortOfcCd t) (csNo t), Wait IP_BLOCK_WAIT, Goto True, Wait 3000]"
    if "gotoOk env (navs s)"
    unfolding b using that cooldown_ok [of env ?s2] by (simp add: emit_def)
  have l: "runLoop env test targets i s = runLoop env test targets i ?s'"
    if "gotoOk env (navs s)"
    using runLoop_Retry [of i targets env test s] r [OF that] assms(5,6) by simp
  have one: "fetchesOf (trace ?s') = fetchesOf (trace s) @ [(i, cortOfcCd t, csNo t)]"
    using assms(1) by (simp add: fetches_body)
  have "detailMap (details ?s') (keyOf (targets ! i)) \<noteq> None"
    using assms(1,6) by (simp add: f)
  from runLoop_first_fetch [OF assms(5) this, of env test] obtain rest where
    "fetchesOf (trace (snd (runLoop env test targets i ?s'))) =
       fetchesOf (trace ?s') @ (i, cortOfcCd t, csNo t) # rest"
    using assms(6) by auto
  then have n: "\<exists>rest. fetchesOf (trace (snd (runLoop env test targets i s))) =
           fetchesOf (trace s) @ (i, cortOfcCd t, csNo t) # (i, cortOfcCd t, csNo t) # rest"
    if "gotoOk env (navs s)"
    using l [OF that] one by simp
  from f w r l n show ?thesis by blast
qed


subsection \<open>The abort\<close>

lemma abortRun_ok:
  assumes "writeOk env (writes s)" and "writeOk env (Suc (writes s))"
  shows "fst (abortRun env s) = Exit 1"
    and "detailsFile (snd (abortRun env s)) = serializeDetails (rawData s) (details s)"
    and "progressFile (snd (abortRun env s)) = Some (progress s)"
    and "details (snd (abortRun env s)) = details s"
    and "progress (snd (abortRun env s)) = progress s"
  using assms by (simp_all add: abortRun_def saveDetails_def saveProgress_def Let_def emit_def)

lemma abortRun_Exit:
  assumes "fst (abortRun env s) = Exit c"
  shows "c = 1" and "persisted (snd (abortRun env s))"
    and "consecutiveBlocks (snd (abortRun env s)) = consecutiveBlocks s"
  using assms
  by (auto simp: abortRun_def saveDetails_def saveProgress_def Let_def emit_def persisted_def
      caught_def delayed_def split: if_splits)

lemma cooldown_not_Exit: "fst (cooldown env s) \<noteq> Exit c"
  by (simp add: cooldown_def Let_def caught_Advance)

lemma onBlocked_Exit:
  assumes "fst (onBlocked env s) = Exit c"
  shows "c = 1" and "persisted (snd (onBlocked env s))"
    and "MAX_CONSECUTIVE_BLOCKS \<le> consecutiveBlocks (snd (onBlocked env s))"
  using assms abortRun_Exit [of env "s\<lparr>consecutiveBlocks := Suc (consecutiveBlocks s)\<rparr>" c]
  by (auto simp: onBlocked_def Let_def cooldown_not_Exit split: if_splits)

lemma attempt_Exit:
  assumes "fst (attempt env test i t j s) = Exit c"
  shows "c = 1" and "persisted (snd (attempt env test i t j s))"
    and "MAX_CONSECUTIVE_BLOCKS \<le> consecutiveBlocks (snd (attempt env test i t j s))"
  using assms
    onBlocked_Exit [of env "emit (Fetch i (cortOfcCd t) (csNo t)) (s\<lparr>fetches := Suc (fetches s)\<rparr>)" c]
  by (auto simp: attempt_def Let_def caught_Advance onResult_Advance
      split: fetched.splits if_splits)

lemma body_Exit:
  assumes "fst (body env test i t s) = Exit c"
  shows "c = 1" and "persisted (snd (body env test i t s))"
    and "MAX_CONSECUTIVE_BLOCKS \<le> consecutiveBlocks (snd (body env test i t s))"
  using assms attempt_Exit [of env test i t _ "batchRest i s" c]
  by (auto simp: body_def Let_def split: option.splits)

lemma finalSave_not_Exited: "fst (finalSave env s) \<noteq> Exited c"
  by (simp add: finalSave_def split: prod.split bool.split)

lemma runLoop_Exited:
  "runLoop env test targets i s = (Exited c, s') \<Longrightarrow>
   c = 1 \<and> persisted s' \<and> MAX_CONSECUTIVE_BLOCKS \<le> consecutiveBlocks s'"
proof (induction env test targets i s rule: runLoop.induct)
  case (1 env test targets i s)
  let ?r = "body env test i (targets ! i) s"
  show ?case
  proof (cases "i < length targets")
    case False
    with "1.prems" finalSave_not_Exited [of env s c] show ?thesis
      by (simp add: runLoop_done)
  next
    case True
    show ?thesis
    proof (cases "fst ?r")
      case Advance
      with True "1.prems" have "runLoop env test targets (Suc i) (snd ?r) = (Exited c, s')"
        by (simp add: runLoop_Advance)
      with "1.IH"(1) [OF True refl Advance] show ?thesis .
    next
      case Retry
      with True "1.prems" have "runLoop env test targets i (snd ?r) = (Exited c, s')"
        by (simp add: runLoop_Retry)
      with "1.IH"(2) [OF True refl Retry] show ?thesis .
    next
      case (Exit c')
      with True "1.prems" have "c' = c" "snd ?r = s'"
        by (simp_all add: runLoop_Exit)
      with body_Exit [of env test i "targets ! i" s c'] Exit show ?thesis by simp
    qed
  qed
qed

text \<open>
  Claim C2, as the code has it.  When a \<open>Blocked\<close> result raises the count to
  \<^verbatim>\<open>MAX_CONSECUTIVE_BLOCKS\<close> or beyond and the two writes of lines 236 and 237 complete,
  the run ends there with exit status 1, the details
  file holding the entries as they are in memory (every merge made so far) and the progress
  file holding the checkpoint.  Conversely the loop exits with a status only in this way:
  the status is 1, the count has reached the limit, and both files hold the state in memory.
\<close>

theorem abort_at_limit:
  "(detailMap (details s) (keyOf t) = Some j \<and> fetchAt env (fetches s) = Resolved reply \<and>
    classify (scrapeDocuments reply) = Blocked \<and>
    MAX_CONSECUTIVE_BLOCKS \<le> Suc (consecutiveBlocks s) \<and>
    writeOk env (writes s) \<and> writeOk env (Suc (writes s)) \<and>
    i < length targets \<and> targets ! i = t \<longrightarrow>
      runLoop env test targets i s = (Exited 1, snd (body env test i t s)) \<and>
      detailsFile (snd (body env test i t s)) = serializeDetails (rawData s) (details s) \<and>
      progressFile (snd (body env test i t s)) = Some (progress s) \<and>
      details (snd (body env test i t s)) = details s \<and>
      progress (snd (body env test i t s)) = progress s) \<and>
   (runLoop env test targets i s = (Exited c, s') \<longrightarrow>
      c = 1 \<and> MAX_CONSECUTIVE_BLOCKS \<le> consecutiveBlocks s' \<and>
      detailsFile s' = serializeDetails (rawData s') (details s') \<and>
      progressFile s' = Some (progress s'))"
proof (intro conjI impI)
  assume a: "detailMap (details s) (keyOf t) = Some j \<and> fetchAt env (fetches s) = Resolved reply \<and>
    classify (scrapeDocuments reply) = Blocked \<and>
    MAX_CONSECUTIVE_BLOCKS \<le> Suc (consecutiveBlocks s) \<and>
    writeOk env (writes s) \<and> writeOk env (Suc (writes s)) \<and>
    i < length targets \<and> targets ! i = t"
  let ?s1 = "emit (Fetch i (cortOfcCd t) (csNo t))
               ((batchRest i s)\<lparr>fetches := Suc (fetches (batchRest i s))\<rparr>)"
  let ?s2 = "?s1\<lparr>consecutiveBlocks := Suc (consecutiveBlocks ?s1)\<rparr>"
  have b: "body env test i t s = abortRun env ?s2"
    using a by (simp add: body_found attempt_blocked onBlocked_limit emit_def)
  have w: "writeOk env (writes ?s2)" "writeOk env (Suc (writes ?s2))"
    using a by (simp_all add: emit_def)
  note ok = abortRun_ok [OF w]
  show "runLoop env test targets i s = (Exited 1, snd (body env test i t s))"
    using runLoop_Exit [of i targets env test s 1] a ok(1) by (simp add: b)
  show "detailsFile (snd (body env test i t s)) = serializeDetails (rawData s) (details s)"
    unfolding b ok(2) by (simp add: emit_def)
  show "progressFile (snd (body env test i t s)) = Some (progress s)"
    unfolding b ok(3) by (simp add: emit_def)
  show "details (snd (body env test i t s)) = details s"
    unfolding b ok(4) by (simp add: emit_def)
  show "progress (snd (body env test i t s)) = progress s"
    unfolding b ok(5) by (simp add: emit_def)
next
  assume "runLoop env test targets i s = (Exited c, s')"
  from runLoop_Exited [OF this]
  show "c = 1" "MAX_CONSECUTIVE_BLOCKS \<le> consecutiveBlocks s'"
    "detailsFile s' = serializeDetails (rawData s') (details s')"
    "progressFile s' = Some (progress s')"
    by (simp_all add: persisted_def)
qed


subsection \<open>A result that is not blocked\<close>

lemma merge_NoData: "classify r = NoData \<Longrightarrow> merge cmp r e = (logNoData r, mergeEmpty e, False)"
  and merge_Error: "classify r = Error \<Longrightarrow> merge cmp r e = (logError r, mergeEmpty e, logError r)"
  and merge_Success: "classify r = Success \<Longrightarrow>
        merge cmp r e =
          (fst (mergeSuccess cmp r e) \<and> logSuccess r, snd (mergeSuccess cmp r e), False)"
  by (simp_all add: merge_def split: prod.split)

lemma settles_cases:
  "classify r = NoData \<Longrightarrow> settles env r e = logNoData r"
  "classify r = Error \<Longrightarrow> settles env r e = logError r"
  "classify r = Success \<Longrightarrow>
     settles env r e = (fst (mergeSuccess (numGt0 env) r e) \<and> logSuccess r)"
  by (simp_all add: settles_def merge_NoData merge_Error merge_Success)

lemma settles_merge:
  assumes "settles env r e" and "classify r \<noteq> Blocked"
  shows "merge (numGt0 env) r e =
     (True, fst (snd (merge (numGt0 env) r e)), classify r = Error)"
proof (cases "classify r")
  case Blocked
  with assms(2) show ?thesis by simp
next
  case NoData
  with assms(1) show ?thesis by (simp add: settles_cases merge_NoData)
next
  case Success
  with assms(1) show ?thesis by (simp add: settles_cases merge_Success)
next
  case Error
  with assms(1) show ?thesis by (simp add: settles_cases merge_Error)
qed

lemma settle_fields:
  "fst (settle env test i k s) = Advance"
  "completed (progress (snd (settle env test i k s))) = completed (progress s) @ [k]"
  "success (snd (settle env test i k s)) = Suc (success s)"
  "errors (snd (settle env test i k s)) =
     errors s + (if periodicSaveFails env test i s then 1 else 0)"
  "details (snd (settle env test i k s)) = details s"
  "consecutiveBlocks (snd (settle env test i k s)) = consecutiveBlocks s"
  by (simp_all add: settle_def saveProgress_def saveDetails_def caught_def delayed_def emit_def
      markCompleted_def periodicSaveFails_def Let_def)

lemma caught_fields:
  "progress (snd (caught s)) = progress s"
  "success (snd (caught s)) = success s"
  "errors (snd (caught s)) = Suc (errors s)"
  "details (snd (caught s)) = details s"
  "consecutiveBlocks (snd (caught s)) = consecutiveBlocks s"
  by (simp_all add: caught_def delayed_def emit_def)

lemma onResult_ok:
  assumes "merge (numGt0 env) r (details s ! j) = (True, e', err)"
  shows "fst (onResult env test i k j r s) = Advance"
    and "consecutiveBlocks (snd (onResult env test i k j r s)) = 0"
    and "details (snd (onResult env test i k j r s)) = (details s)[j := e']"
    and "completed (progress (snd (onResult env test i k j r s))) = completed (progress s) @ [k]"
    and "success (snd (onResult env test i k j r s)) = Suc (success s)"
    and "errors (snd (onResult env test i k j r s)) =
           errors s + (if err then 1 else 0) + (if periodicSaveFails env test i s then 1 else 0)"
  using assms
  by (simp_all add: onResult_def Let_def settle_fields periodicSaveFails_def)

lemma onResult_thrown:
  assumes "merge (numGt0 env) r (details s ! j) = (False, e', err)"
  shows "consecutiveBlocks (snd (onResult env test i k j r s)) = 0"
    and "details (snd (onResult env test i k j r s)) = (details s)[j := e']"
    and "progress (snd (onResult env test i k j r s)) = progress s"
    and "success (snd (onResult env test i k j r s)) = success s"
    and "errors (snd (onResult env test i k j r s)) = Suc (errors s) + (if err then 1 else 0)"
  using assms
  by (simp_all add: onResult_def Let_def caught_fields)


lemma onResult_cb: "consecutiveBlocks (snd (onResult env test i k j r s)) = 0"
  by (cases "merge (numGt0 env) r (details s ! j)")
     (simp add: onResult_def Let_def caught_fields settle_fields)

lemma attempt_result:
  assumes "fetchAt env (fetches s) = Resolved reply"
    and "classify (scrapeDocuments reply) \<noteq> Blocked"
  shows "attempt env test i t j s =
     onResult env test i (keyOf t) j (scrapeDocuments reply)
       (emit (Fetch i (cortOfcCd t) (csNo t)) (s\<lparr>fetches := Suc (fetches s)\<rparr>))"
  using assms by (simp add: attempt_def Let_def)

lemma body_result:
  assumes "detailMap (details s) (keyOf t) = Some j"
    and "fetchAt env (fetches s) = Resolved reply"
    and "classify (scrapeDocuments reply) \<noteq> Blocked"
  shows "body env test i t s =
     onResult env test i (keyOf t) j (scrapeDocuments reply)
       (emit (Fetch i (cortOfcCd t) (csNo t))
          ((batchRest i s)\<lparr>fetches := Suc (fetches (batchRest i s))\<rparr>))"
  using assms by (simp add: body_found attempt_result)

lemma periodicSaveFails_cong:
  "writes s' = writes s \<Longrightarrow> periodicSaveFails env test i s' = periodicSaveFails env test i s"
  by (simp add: periodicSaveFails_def)

text \<open>
  Claim C4, as the code has it.  A pass whose fetch resolves to a result that is not
  \<open>Blocked\<close> sets the consecutive-block count to 0 (line 250), whether the result is
  \<open>Success\<close>, \<open>NoData\<close> or \<open>Error\<close>.  For an \<open>Error\<close> that settles the pass also appends
  the key to the completed keys and raises the error count by one, and by one more when the
  periodic save of that pass throws.
\<close>

theorem error_resets_counter:
  assumes "detailMap (details s) (keyOf t) = Some j"
    and "fetchAt env (fetches s) = Resolved reply"
    and "classify (scrapeDocuments reply) \<noteq> Blocked"
  shows "consecutiveBlocks (snd (body env test i t s)) = 0 \<and>
     (classify (scrapeDocuments reply) = Error \<and>
      settles env (scrapeDocuments reply) (details s ! j) \<longrightarrow>
        fst (body env test i t s) = Advance \<and>
        completed (progress (snd (body env test i t s))) = completed (progress s) @ [keyOf t] \<and>
        errors (snd (body env test i t s)) =
          Suc (errors s) + (if periodicSaveFails env test i s then 1 else 0))"
proof -
  let ?s1 = "emit (Fetch i (cortOfcCd t) (csNo t))
          ((batchRest i s)\<lparr>fetches := Suc (fetches (batchRest i s))\<rparr>)"
  let ?r = "scrapeDocuments reply"
  note b = body_result [OF assms]
  have p: "periodicSaveFails env test i ?s1 = periodicSaveFails env test i s"
    by (rule periodicSaveFails_cong) (simp add: emit_def)
  have d: "details ?s1 ! j = details s ! j" by (simp add: emit_def)
  have c: "consecutiveBlocks (snd (body env test i t s)) = 0"
    unfolding b by (rule onResult_cb)
  have e: "fst (body env test i t s) = Advance \<and>
        completed (progress (snd (body env test i t s))) = completed (progress s) @ [keyOf t] \<and>
        errors (snd (body env test i t s)) =
          Suc (errors s) + (if periodicSaveFails env test i s then 1 else 0)"
    if "classify ?r = Error \<and> settles env ?r (details s ! j)"
  proof -
    from that have "merge (numGt0 env) ?r (details ?s1 ! j) =
        (True, fst (snd (merge (numGt0 env) ?r (details ?s1 ! j))), True)"
      unfolding d using settles_merge [of env ?r "details s ! j"] assms(3) by simp
    from onResult_ok [OF this, where test = test and i = i and k = "keyOf t"] p
    show ?thesis
      unfolding b by (simp add: emit_def)
  qed
  from c e show ?thesis by blast
qed

subsection \<open>Outcomes without data\<close>

lemma keyOf_mergeEmpty [simp]: "keyOf (mergeEmpty e) = keyOf e"
  by (simp add: keyOf_def mergeEmpty_def)

lemma keyOf_merge: "keyOf (fst (snd (merge cmp r e))) = keyOf e"
  using framed_merge [of e cmp r] by (simp add: keyOf_def framed_def)

lemma map_keyOf_update:
  "map keyOf (xs[j := e']) = map keyOf xs" if "keyOf e' = keyOf (xs ! j)"
proof (cases "j < length xs")
  case True
  then show ?thesis using that by (simp add: map_update list_update_same_conv)
next
  case False
  then show ?thesis by (simp add: list_update_beyond)
qed




subsection \<open>Counting\<close>

lemma abortRun_counts:
  "success (snd (abortRun env s)) = success s" "progress (snd (abortRun env s)) = progress s"
  "details (snd (abortRun env s)) = details s"
  by (simp_all add: abortRun_def saveDetails_def saveProgress_def caught_def delayed_def
      emit_def Let_def)

lemma cooldown_counts:
  "success (snd (cooldown env s)) = success s"
  by (simp add: cooldown_def caught_def delayed_def emit_def Let_def)

lemma onBlocked_counts:
  "success (snd (onBlocked env s)) = success s" "progress (snd (onBlocked env s)) = progress s"
  "details (snd (onBlocked env s)) = details s"
  by (simp_all add: onBlocked_def Let_def abortRun_counts cooldown_counts cooldown_fields)

lemma onResult_counts:
  "success (snd (onResult env test i k j r s)) + length (completed (progress s)) =
     success s + length (completed (progress (snd (onResult env test i k j r s))))"
  "map keyOf (details (snd (onResult env test i k j r s))) = map keyOf (details s)"
proof -
  obtain ok e' err where m: "merge (numGt0 env) r (details s ! j) = (ok, e', err)"
    by (cases "merge (numGt0 env) r (details s ! j)") auto
  then have e': "e' = fst (snd (merge (numGt0 env) r (details s ! j)))" by simp
  have k: "keyOf e' = keyOf (details s ! j)"
    unfolding e' by (rule keyOf_merge)
  show "success (snd (onResult env test i k j r s)) + length (completed (progress s)) =
     success s + length (completed (progress (snd (onResult env test i k j r s))))"
    using m onResult_ok [of env r s j e' err test i k] onResult_thrown [of env r s j e' err test i k]
    by (cases ok) simp_all
  show "map keyOf (details (snd (onResult env test i k j r s))) = map keyOf (details s)"
    using m k onResult_ok [of env r s j e' err test i k]
      onResult_thrown [of env r s j e' err test i k]
    by (cases ok) (simp_all add: map_keyOf_update)
qed

lemma attempt_counts:
  "success (snd (attempt env test i t j s)) + length (completed (progress s)) =
     success s + length (completed (progress (snd (attempt env test i t j s))))"
  "map keyOf (details (snd (attempt env test i t j s))) = map keyOf (details s)"
  using onResult_counts [of env test i "keyOf t" j _
      "emit (Fetch i (cortOfcCd t) (csNo t)) (s\<lparr>fetches := Suc (fetches s)\<rparr>)"]
  by (auto simp: attempt_def Let_def caught_fields onBlocked_counts emit_def
      split: fetched.split)

lemma body_keys: "map keyOf (details (snd (body env test i t s))) = map keyOf (details s)"
  using attempt_counts(2) [of env test i t _ "batchRest i s"]
  by (auto simp: body_def Let_def markCompleted_def split: option.split)

lemma body_counts:
  "detailMap (details s) (keyOf t) \<noteq> None \<Longrightarrow>
   success (snd (body env test i t s)) + length (completed (progress s)) =
     success s + length (completed (progress (snd (body env test i t s))))"
  using attempt_counts(1) [of env test i t _ "batchRest i s"]
  by (auto simp: body_def Let_def)

lemma finalSave_counts:
  "success (snd (finalSave env s)) = success s" "progress (snd (finalSave env s)) = progress s"
  by (simp_all add: finalSave_def saveDetails_def saveProgress_def emit_def Let_def)

lemma runLoop_counts:
  "\<forall>t \<in> set targets. detailMap (details s) (keyOf t) \<noteq> None \<Longrightarrow>
   success (snd (runLoop env test targets i s)) + length (completed (progress s)) =
     success s + length (completed (progress (snd (runLoop env test targets i s))))"
proof (induction env test targets i s rule: runLoop.induct)
  case (1 env test targets i s)
  let ?r = "body env test i (targets ! i) s"
  show ?case
  proof (cases "i < length targets")
    case False
    then show ?thesis by (simp add: runLoop_done finalSave_counts)
  next
    case True
    then have "detailMap (details s) (keyOf (targets ! i)) \<noteq> None"
      using "1.prems" by simp
    note c = body_counts [OF this, of env test i]
    have "detailMap (details (snd ?r)) = detailMap (details s)"
      by (rule detailMap_keys) (rule body_keys)
    with "1.prems" have inv: "\<forall>t \<in> set targets. detailMap (details (snd ?r)) (keyOf t) \<noteq> None"
      by simp
    show ?thesis
    proof (cases "fst ?r")
      case Advance
      from "1.IH"(1) [OF True refl Advance inv] c show ?thesis
        by (simp add: runLoop_Advance [OF True Advance])
    next
      case Retry
      from "1.IH"(2) [OF True refl Retry inv] c show ?thesis
        by (simp add: runLoop_Retry [OF True Retry])
    next
      case (Exit c')
      with c show ?thesis
        by (simp add: runLoop_Exit [OF True Exit])
    qed
  qed
qed

lemma selectTargets_subset: "set (selectTargets test done ds) \<subseteq> set (pendingList done ds)"
  by (auto simp: selectTargets_def sample_def Let_def dest: in_set_takeD)

lemma pendingList_subset: "set (pendingList done ds) \<subseteq> set ds"
  by (auto simp: pendingList_def)

lemma main_counts:
  "success (snd (main env test resume raw pfile)) +
     length (completed (loadProgress resume pfile)) =
   length (completed (progress (snd (main env test resume raw pfile))))"
proof -
  let ?pr = "loadProgress resume pfile"
  let ?s0 = "startState raw pfile ?pr"
  let ?targets = "selectTargets test (completed ?pr) (details ?s0)"
  let ?s3 = "emit (Wait 3000) (emit (Goto True)
      (?s0\<lparr>progress := ?pr\<lparr>total := length (details ?s0)\<rparr>, navs := Suc (navs ?s0)\<rparr>))"
  have sub: "set ?targets \<subseteq> set (details ?s3)"
    using selectTargets_subset [of test "completed ?pr" "details ?s0"]
      pendingList_subset [of "completed ?pr" "details ?s0"]
    by (simp add: emit_def)
  have "\<forall>t \<in> set ?targets. detailMap (details ?s3) (keyOf t) \<noteq> None"
    using sub detailMap_found by blast
  from runLoop_counts [OF this, of env test 0]
  have r: "success (snd (runLoop env test ?targets 0 ?s3)) + length (completed ?pr) =
     length (completed (progress (snd (runLoop env test ?targets 0 ?s3))))"
    by (simp add: emit_def startState_def)
  show ?thesis
    using r by (simp add: main_def Let_def emit_def startState_def)
qed

text \<open>
  Claim C10, as the code has it.  A pass whose result is not \<open>Blocked\<close> and that settles its
  item raises \<^verbatim>\<open>success\<close> by one and appends the key to the completed keys, whether the
  result is \<open>Success\<close>, \<open>NoData\<close> or \<open>Error\<close>; for \<open>Error\<close> it raises \<^verbatim>\<open>errors\<close> as well.
  Over a whole run, however it ends, the success count is the number of keys the run has
  added to the completed keys.
\<close>

theorem success_counts_settled:
  "(detailMap (details s) (keyOf t) = Some j \<and> fetchAt env (fetches s) = Resolved reply \<and>
    classify (scrapeDocuments reply) \<noteq> Blocked \<and>
    settles env (scrapeDocuments reply) (details s ! j) \<longrightarrow>
      success (snd (body env test i t s)) = Suc (success s) \<and>
      completed (progress (snd (body env test i t s))) = completed (progress s) @ [keyOf t] \<and>
      (classify (scrapeDocuments reply) = Error \<longrightarrow>
         errors (snd (body env test i t s)) =
           Suc (errors s) + (if periodicSaveFails env test i s then 1 else 0))) \<and>
   success (snd (main env test resume raw pfile)) +
     length (completed (loadProgress resume pfile)) =
   length (completed (progress (snd (main env test resume raw pfile))))"
proof (intro conjI impI)
  assume a: "detailMap (details s) (keyOf t) = Some j \<and> fetchAt env (fetches s) = Resolved reply \<and>
    classify (scrapeDocuments reply) \<noteq> Blocked \<and>
    settles env (scrapeDocuments reply) (details s ! j)"
  let ?s1 = "emit (Fetch i (cortOfcCd t) (csNo t))
          ((batchRest i s)\<lparr>fetches := Suc (fetches (batchRest i s))\<rparr>)"
  let ?r = "scrapeDocuments reply"
  from a have nb: "classify ?r \<noteq> Blocked" by simp
  from a have st: "settles env ?r (details s ! j)" by simp
  from a have f: "detailMap (details s) (keyOf t) = Some j" "fetchAt env (fetches s) = Resolved reply"
    by simp_all
  note b = body_result [OF f nb]
  have d: "details ?s1 ! j = details s ! j" by (simp add: emit_def)
  have m: "merge (numGt0 env) ?r (details ?s1 ! j) =
      (True, fst (snd (merge (numGt0 env) ?r (details ?s1 ! j))), classify ?r = Error)"
    unfolding d by (rule settles_merge [OF st nb])
  note o = onResult_ok [OF m, where test = test and i = i and k = "keyOf t"]
  have p: "periodicSaveFails env test i ?s1 = periodicSaveFails env test i s"
    by (rule periodicSaveFails_cong) (simp add: emit_def)
  show "success (snd (body env test i t s)) = Suc (success s)"
    unfolding b o(5) by (simp add: emit_def)
  show "completed (progress (snd (body env test i t s))) = completed (progress s) @ [keyOf t]"
    unfolding b o(4) by (simp add: emit_def)
  show "errors (snd (body env test i t s)) =
           Suc (errors s) + (if periodicSaveFails env test i s then 1 else 0)"
    if "classify ?r = Error"
    unfolding b o(6) p using that by (simp add: emit_def)
next
  show "success (snd (main env test resume raw pfile)) +
     length (completed (loadProgress resume pfile)) =
   length (completed (progress (snd (main env test resume raw pfile))))"
    by (rule main_counts)
qed

subsection \<open>A write that throws\<close>

lemma two_cases: "w \<le> n \<Longrightarrow> n < Suc (Suc w) \<Longrightarrow> n = w \<or> n = Suc w"
  by arith

lemma settle_failed:
  assumes "writes s \<le> n" and "n < writes (snd (settle env test i k s))" and "\<not> writeOk env n"
  shows "writes (snd (settle env test i k s)) = Suc n \<and> fst (settle env test i k s) = Advance \<and>
     errors s < errors (snd (settle env test i k s)) \<and>
     endedByFailedWrite (trace (snd (settle env test i k s)))"
proof (cases "i mod 10 = 0 \<or> test")
  case False
  with assms show ?thesis
    by (simp add: settle_def Let_def delayed_def emit_def markCompleted_def)
next
  case True
  show ?thesis
  proof (cases "writeOk env (writes s)")
    case False
    with True assms show ?thesis
      by (simp add: settle_def Let_def saveProgress_def caught_def delayed_def emit_def
          markCompleted_def endedByFailedWrite_def)
  next
    case w0: True
    show ?thesis
    proof (cases "writeOk env (Suc (writes s))")
      case False
      with w0 True assms two_cases [of "writes s" n] show ?thesis
        by (auto simp: settle_def Let_def saveProgress_def saveDetails_def caught_def
            delayed_def emit_def markCompleted_def endedByFailedWrite_def)
    next
      case w1: True
      with w0 True assms two_cases [of "writes s" n] show ?thesis
        by (auto simp: settle_def Let_def saveProgress_def saveDetails_def caught_def
            delayed_def emit_def markCompleted_def)
    qed
  qed
qed

lemma abortRun_failed:
  assumes "writes s \<le> n" and "n < writes (snd (abortRun env s))" and "\<not> writeOk env n"
  shows "writes (snd (abortRun env s)) = Suc n \<and> fst (abortRun env s) = Advance \<and>
     errors s < errors (snd (abortRun env s)) \<and>
     endedByFailedWrite (trace (snd (abortRun env s)))"
proof (cases "writeOk env (writes s)")
  case False
  with assms show ?thesis
    by (simp add: abortRun_def Let_def saveDetails_def caught_def delayed_def emit_def
        endedByFailedWrite_def)
next
  case w0: True
  show ?thesis
  proof (cases "writeOk env (Suc (writes s))")
    case False
    with w0 assms two_cases [of "writes s" n] show ?thesis
      by (auto simp: abortRun_def Let_def saveProgress_def saveDetails_def caught_def
          delayed_def emit_def endedByFailedWrite_def)
  next
    case w1: True
    with w0 assms two_cases [of "writes s" n] show ?thesis
      by (auto simp: abortRun_def Let_def saveProgress_def saveDetails_def caught_def
          delayed_def emit_def)
  qed
qed

lemma finalSave_failed:
  assumes "writes s \<le> n" and "n < writes (snd (finalSave env s))" and "\<not> writeOk env n"
  shows "writes (snd (finalSave env s)) = Suc n \<and> fst (finalSave env s) = Crashed"
proof (cases "writeOk env (writes s)")
  case False
  with assms show ?thesis
    by (simp add: finalSave_def Let_def saveDetails_def emit_def)
next
  case w0: True
  show ?thesis
  proof (cases "writeOk env (Suc (writes s))")
    case False
    with w0 assms two_cases [of "writes s" n] show ?thesis
      by (auto simp: finalSave_def Let_def saveProgress_def saveDetails_def emit_def)
  next
    case w1: True
    with w0 assms two_cases [of "writes s" n] show ?thesis
      by (auto simp: finalSave_def Let_def saveProgress_def saveDetails_def emit_def)
  qed
qed

lemma writes_cooldown: "writes (snd (cooldown env s)) = writes s"
  by (simp add: cooldown_def Let_def caught_def delayed_def emit_def)

lemma writes_caught: "writes (snd (caught s)) = writes s"
  by (simp add: caught_def delayed_def emit_def)

lemma onBlocked_failed:
  assumes "writes s \<le> n" and "n < writes (snd (onBlocked env s))" and "\<not> writeOk env n"
  shows "writes (snd (onBlocked env s)) = Suc n \<and> fst (onBlocked env s) = Advance \<and>
     errors s < errors (snd (onBlocked env s)) \<and>
     endedByFailedWrite (trace (snd (onBlocked env s)))"
proof (cases "MAX_CONSECUTIVE_BLOCKS \<le> Suc (consecutiveBlocks s)")
  case True
  with assms abortRun_failed [of "s\<lparr>consecutiveBlocks := Suc (consecutiveBlocks s)\<rparr>" n env]
  show ?thesis by (simp add: onBlocked_def Let_def)
next
  case False
  with assms show ?thesis by (simp add: onBlocked_def Let_def writes_cooldown)
qed

lemma onResult_failed:
  assumes "writes s \<le> n" and "n < writes (snd (onResult env test i k j r s))"
    and "\<not> writeOk env n"
  shows "writes (snd (onResult env test i k j r s)) = Suc n \<and>
     fst (onResult env test i k j r s) = Advance \<and>
     errors s < errors (snd (onResult env test i k j r s)) \<and>
     endedByFailedWrite (trace (snd (onResult env test i k j r s)))"
proof -
  obtain ok e' err where m: "merge (numGt0 env) r (details s ! j) = (ok, e', err)"
    by (cases "merge (numGt0 env) r (details s ! j)") auto
  let ?s1 = "s\<lparr>consecutiveBlocks := 0, details := (details s)[j := e']\<rparr>"
  let ?s2 = "if err then ?s1\<lparr>errors := Suc (errors ?s1)\<rparr> else ?s1"
  have o: "onResult env test i k j r s = (if ok then settle env test i k ?s2 else caught ?s2)"
    using m by (simp add: onResult_def Let_def)
  have w: "writes ?s2 = writes s" and e: "errors s \<le> errors ?s2" by simp_all
  show ?thesis
  proof (cases ok)
    case False
    with assms o w show ?thesis by (simp add: writes_caught)
  next
    case True
    with assms o w settle_failed [of ?s2 n env test i k] e show ?thesis
      by (cases err) auto
  qed
qed


lemma attempt_failed:
  assumes "writes s \<le> n" and "n < writes (snd (attempt env test i t j s))"
    and "\<not> writeOk env n"
  shows "writes (snd (attempt env test i t j s)) = Suc n \<and>
     fst (attempt env test i t j s) = Advance \<and>
     errors s < errors (snd (attempt env test i t j s)) \<and>
     endedByFailedWrite (trace (snd (attempt env test i t j s)))"
proof -
  let ?s1 = "emit (Fetch i (cortOfcCd t) (csNo t)) (s\<lparr>fetches := Suc (fetches s)\<rparr>)"
  have w: "writes ?s1 = writes s" and e: "errors ?s1 = errors s" by (simp_all add: emit_def)
  show ?thesis
  proof (cases "fetchAt env (fetches s)")
    case Rejected
    with assms w show ?thesis by (simp add: attempt_def Let_def writes_caught)
  next
    case (Resolved reply)
    show ?thesis
    proof (cases "classify (scrapeDocuments reply) = Blocked")
      case True
      with Resolved assms w e onBlocked_failed [of ?s1 n env] show ?thesis
        by (simp add: attempt_def Let_def)
    next
      case False
      with Resolved assms w e
        onResult_failed [of ?s1 n env test i "keyOf t" j "scrapeDocuments reply"]
      show ?thesis by (simp add: attempt_def Let_def)
    qed
  qed
qed

lemma body_failed:
  assumes "writes s \<le> n" and "n < writes (snd (body env test i t s))" and "\<not> writeOk env n"
  shows "writes (snd (body env test i t s)) = Suc n \<and> fst (body env test i t s) = Advance \<and>
     errors s < errors (snd (body env test i t s)) \<and>
     endedByFailedWrite (trace (snd (body env test i t s)))"
proof (cases "detailMap (details s) (keyOf t)")
  case None
  with assms show ?thesis by (simp add: body_def Let_def markCompleted_def)
next
  case (Some j)
  with assms attempt_failed [of "batchRest i s" n env test i t j] show ?thesis
    by (simp add: body_found)
qed

text \<open>
  Claim C8, as the code has it.  The script has no retry.  When a write attempted in a pass
  throws, it is the last write of that pass: the \<^verbatim>\<open>catch\<close> block counts an error, the next
  effect is the pause of line 290, and the loop goes on with the next index (also on the
  abort path, where the process then does not exit).  When a write of the final save
  throws, no further write follows and the exception leaves \<^verbatim>\<open>main\<close>.
\<close>

theorem failed_write_goes_on:
  "(writes s \<le> n \<and> n < writes (snd (body env test i t s)) \<and> \<not> writeOk env n \<longrightarrow>
      writes (snd (body env test i t s)) = Suc n \<and>
      fst (body env test i t s) = Advance \<and>
      errors s < errors (snd (body env test i t s)) \<and>
      endedByFailedWrite (trace (snd (body env test i t s))) \<and>
      (i < length targets \<and> targets ! i = t \<longrightarrow>
         runLoop env test targets i s =
           runLoop env test targets (Suc i) (snd (body env test i t s)))) \<and>
   (writes s \<le> n \<and> n < writes (snd (finalSave env s)) \<and> \<not> writeOk env n \<longrightarrow>
      writes (snd (finalSave env s)) = Suc n \<and> fst (finalSave env s) = Crashed)"
proof (intro conjI impI)
  assume a: "writes s \<le> n \<and> n < writes (snd (body env test i t s)) \<and> \<not> writeOk env n"
  then have b: "writes (snd (body env test i t s)) = Suc n \<and> fst (body env test i t s) = Advance \<and>
     errors s < errors (snd (body env test i t s)) \<and>
     endedByFailedWrite (trace (snd (body env test i t s)))"
    using body_failed [of s n env test i t] by blast
  from b show "writes (snd (body env test i t s)) = Suc n" by blast
  from b show "fst (body env test i t s) = Advance" by blast
  from b show "errors s < errors (snd (body env test i t s))" by blast
  from b show "endedByFailedWrite (trace (snd (body env test i t s)))" by blast
  show "runLoop env test targets i s =
           runLoop env test targets (Suc i) (snd (body env test i t s))"
    if "i < length targets \<and> targets ! i = t"
    using that b runLoop_Advance [of i targets env test s] by auto
next
  assume "writes s \<le> n \<and> n < writes (snd (finalSave env s)) \<and> \<not> writeOk env n"
  then show "writes (snd (finalSave env s)) = Suc n" "fst (finalSave env s) = Crashed"
    using finalSave_failed [of s n env] by blast+
qed

section \<open>Which items are fetched, and in which order\<close>

lemma attempt_not_blocked: "neverBlocked env \<Longrightarrow> fst (attempt env test i t j s) = Advance"
proof -
  assume "neverBlocked env"
  then have "case fetchAt env (fetches s) of
             Rejected \<Rightarrow> True
           | Resolved reply \<Rightarrow> classify (scrapeDocuments reply) \<noteq> Blocked"
    unfolding neverBlocked_def by blast
  then show ?thesis
    by (simp add: attempt_def Let_def caught_Advance onResult_Advance split: fetched.splits)
qed

lemma body_not_blocked: "neverBlocked env \<Longrightarrow> fst (body env test i t s) = Advance"
  by (simp add: body_def Let_def attempt_not_blocked split: option.split)

lemma runLoop_fetches_nominal:
  "neverBlocked env \<Longrightarrow> \<forall>t \<in> set targets. detailMap (details s) (keyOf t) \<noteq> None \<Longrightarrow>
   fetchesOf (trace (snd (runLoop env test targets i s))) =
     fetchesOf (trace s) @
       map (\<lambda>j. (j, cortOfcCd (targets ! j), csNo (targets ! j))) [i..<length targets]"
proof (induction env test targets i s rule: runLoop.induct)
  case (1 env test targets i s)
  let ?r = "body env test i (targets ! i) s"
  show ?case
  proof (cases "i < length targets")
    case False
    then show ?thesis
      by (simp add: runLoop_done fetches_finalSave)
  next
    case True
    have adv: "fst ?r = Advance" using "1.prems"(1) by (rule body_not_blocked)
    have found: "detailMap (details s) (keyOf (targets ! i)) \<noteq> None"
      using True "1.prems"(2) by simp
    have "detailMap (details (snd ?r)) = detailMap (details s)"
      by (rule detailMap_keys) (rule body_keys)
    with "1.prems"(2) have inv: "\<forall>t \<in> set targets. detailMap (details (snd ?r)) (keyOf t) \<noteq> None"
      by simp
    have one: "fetchesOf (trace (snd ?r)) =
        fetchesOf (trace s) @ [(i, cortOfcCd (targets ! i), csNo (targets ! i))]"
      using found by (simp add: fetches_body)
    have u: "[i..<length targets] = i # [Suc i..<length targets]"
      using True by (rule upt_conv_Cons)
    from "1.IH"(1) [OF True refl adv "1.prems"(1) inv] one show ?thesis
      unfolding u by (simp add: runLoop_Advance [OF True adv])
  qed
qed

lemma pendingList_filter:
  "pendingList done ds =
     filter (\<lambda>d. keyOf d \<notin> set done \<and> getProp d ''deliveryRecords'' = None) ds"
  unfolding pendingList_def
  by (rule filter_cong) (auto simp: isPending_def)

lemma map_nth_upt: "map (\<lambda>j. f (xs ! j)) [0..<length xs] = map f xs"
  by (simp add: map_equality_iff)

lemma main_fetches:
  "inOrderFrom (selectTargets test (completed (loadProgress resume pfile)) (detailsOf raw)) 0
     (fetchesOf (trace (snd (main env test resume raw pfile))))"
proof -
  let ?pr = "loadProgress resume pfile"
  let ?s0 = "startState raw pfile ?pr"
  let ?targets = "selectTargets test (completed ?pr) (detailsOf raw)"
  let ?s3 = "emit (Wait 3000) (emit (Goto True)
      (?s0\<lparr>progress := ?pr\<lparr>total := length (details ?s0)\<rparr>, navs := Suc (navs ?s0)\<rparr>))"
  have d: "details ?s0 = detailsOf raw" by (simp add: startState_def)
  from runLoop_fetches [of env test ?targets 0 ?s3]
  have "inOrderFrom ?targets 0 (fetchesOf (trace (snd (runLoop env test ?targets 0 ?s3))))"
    by (auto simp: emit_def startState_def)
  then show ?thesis
    by (simp add: main_def Let_def emit_def startState_def inOrderFrom_Nil)
qed

lemma main_fetches_nominal:
  assumes "neverBlocked env" and "gotoOk env 0" and "wsReady env"
  shows "map snd (fetchesOf (trace (snd (main env test resume raw pfile)))) =
     map (\<lambda>d. (cortOfcCd d, csNo d))
       (selectTargets test (completed (loadProgress resume pfile)) (detailsOf raw))"
proof -
  let ?pr = "loadProgress resume pfile"
  let ?s0 = "startState raw pfile ?pr"
  let ?targets = "selectTargets test (completed ?pr) (detailsOf raw)"
  let ?s3 = "emit (Wait 3000) (emit (Goto True)
      (?s0\<lparr>progress := ?pr\<lparr>total := length (details ?s0)\<rparr>, navs := Suc (navs ?s0)\<rparr>))"
  have sub: "set ?targets \<subseteq> set (details ?s3)"
    using selectTargets_subset [of test "completed ?pr" "detailsOf raw"]
      pendingList_subset [of "completed ?pr" "detailsOf raw"]
    by (simp add: emit_def startState_def)
  have "\<forall>t \<in> set ?targets. detailMap (details ?s3) (keyOf t) \<noteq> None"
    using sub detailMap_found by blast
  from runLoop_fetches_nominal [OF assms(1) this, of test 0]
  have "map snd (fetchesOf (trace (snd (runLoop env test ?targets 0 ?s3)))) =
      map (\<lambda>j. (cortOfcCd (?targets ! j), csNo (?targets ! j))) [0..<length ?targets]"
    by (simp add: emit_def startState_def comp_def)
  also have "\<dots> = map (\<lambda>d. (cortOfcCd d, csNo d)) ?targets"
    by (rule map_nth_upt)
  finally show ?thesis
    using assms(2,3) by (simp add: main_def Let_def emit_def startState_def)
qed

text \<open>
  Claim C5.  The pending list holds exactly the entries whose key is not among the completed
  keys of the checkpoint and that have no \<^verbatim>\<open>deliveryRecords\<close> property (present, even
  empty, counts as done), in the order of the store; outside the test mode it is the list of
  targets, and in the test mode the targets are drawn from it.  In every run the fetches
  are for targets only, each with the key fields of its target, and their indices never
  decrease.  In a run in which no fetch is blocked, the session is established and the
  page is ready, the fetches are exactly the targets, one each, in their order.
\<close>

theorem pending_fetched_in_order:
  "pendingList done ds =
     filter (\<lambda>d. keyOf d \<notin> set done \<and> getProp d ''deliveryRecords'' = None) ds \<and>
   selectTargets False done ds = pendingList done ds \<and>
   set (selectTargets test done ds) \<subseteq> set (pendingList done ds) \<and>
   inOrderFrom (selectTargets test (completed (loadProgress resume pfile)) (detailsOf raw)) 0
     (fetchesOf (trace (snd (main env test resume raw pfile)))) \<and>
   (neverBlocked env \<and> gotoOk env 0 \<and> wsReady env \<longrightarrow>
      map snd (fetchesOf (trace (snd (main env test resume raw pfile)))) =
        map (\<lambda>d. (cortOfcCd d, csNo d))
          (selectTargets test (completed (loadProgress resume pfile)) (detailsOf raw)))"
  using pendingList_filter [of "done" ds] selectTargets_subset [of test "done" ds]
    main_fetches [of test resume pfile raw env]
    main_fetches_nominal [of env test resume raw pfile]
  by (simp add: selectTargets_def)

section \<open>Closed instances\<close>

lemmas pass_defs = body_def batchRest_def attempt_def onBlocked_def abortRun_def cooldown_def
  onResult_def settle_def saveProgress_def saveDetails_def caught_def delayed_def emit_def
  markCompleted_def finalSave_def Let_def

lemmas sample_defs = envOf_def envLost_def okReply_def successReply_def blockedReply_def
  errorReply_def oddErrorReply_def noDataReply_def entryA_def entryB_def entryC_def entryD_def blockPhrase_def

lemmas model_defs = main_def startState_def loadProgress_def freshProgress_def selectTargets_def
  pendingList_def isPending_def keyOf_def getProp_def setProp_def detailMap_def
  classify_def merge_def mergeSuccess_def mergeEmpty_def logNoData_def logSuccess_def logError_def
  dataOf_def statusOk_def errorObj_def
  BATCH_REST_INTERVAL_def MAX_CONSECUTIVE_BLOCKS_def

lemma classify_samples:
  "classify (scrapeDocuments blockedReply) = Blocked"
  "classify (scrapeDocuments okReply) = Success"
  "classify (scrapeDocuments noDataReply) = NoData"
  "classify (scrapeDocuments errorReply) = Error"
  by (simp_all add: blockedReply_def okReply_def noDataReply_def errorReply_def classify_def
      blockPhrase_def successReply_def dataOf_def statusOk_def errorObj_def)

lemma stateABC_fields:
  "details stateABC = [entryA, entryB, entryC]" "progress stateABC = freshProgress"
  "consecutiveBlocks stateABC = 0" "fetches stateABC = 0" "navs stateABC = 0"
  "writes stateABC = 0" "errors stateABC = 0" "success stateABC = 0"
  "rawData stateABC = RawSeq [entryA, entryB, entryC]" "trace stateABC = []"
  by (simp_all add: stateABC_def startState_def)

lemma keyOf_samples:
  "keyOf entryA = ''A1''" "keyOf entryB = ''B2''" "keyOf entryC = ''C3''" "keyOf entryD = ''D4''"
  by (simp_all add: keyOf_def entryA_def entryB_def entryC_def entryD_def)

lemma detailMap_ABC:
  "detailMap [entryA, entryB, entryC] ''A1'' = Some 0"
  "detailMap [entryA, entryB, entryC] ''C3'' = Some 2"
  by (simp_all add: detailMap_def keyOf_samples)

lemma envOf_fields:
  "fetchAt (envOf replies w) n = Resolved (replies n)" "gotoOk (envOf replies w) n"
  "writeOk (envOf replies w) n = w n" "wsReady (envOf replies w)"
  by (simp_all add: envOf_def)

lemma settles_samples:
  "settles env (scrapeDocuments noDataReply) e"
  "settles env (scrapeDocuments errorReply) e"
  "settles env (scrapeDocuments okReply) e"
  "\<not> settles env (scrapeDocuments oddErrorReply) e"
  "classify (scrapeDocuments oddErrorReply) = Error"
  by (simp_all add: settles_def merge_def mergeSuccess_def logNoData_def logSuccess_def
      logError_def classify_def noDataReply_def errorReply_def okReply_def oddErrorReply_def
      successReply_def dataOf_def statusOk_def errorObj_def noDataText_def)

text \<open>Claim C1, instance: the first fetch of a run is blocked and the navigation
  completes; the run fetches the first item a second time.\<close>

theorem blocked_retries_same_item_witness:
  "fst (body (envOf (\<lambda>n. blockedReply) (\<lambda>n. True)) False 0 entryA stateABC) = Retry \<and>
   details (snd (body (envOf (\<lambda>n. blockedReply) (\<lambda>n. True)) False 0 entryA stateABC))
     = details stateABC \<and>
   progress (snd (body (envOf (\<lambda>n. blockedReply) (\<lambda>n. True)) False 0 entryA stateABC))
     = progress stateABC \<and>
   consecutiveBlocks (snd (body (envOf (\<lambda>n. blockedReply) (\<lambda>n. True)) False 0 entryA stateABC))
     = Suc (consecutiveBlocks stateABC) \<and>
   (\<exists>rest. fetchesOf (trace (snd (runLoop (envOf (\<lambda>n. blockedReply) (\<lambda>n. True)) False
       [entryA, entryC] 0 stateABC))) = (0, ''A'', ''1'') # (0, ''A'', ''1'') # rest)"
proof -
  let ?env = "envOf (\<lambda>n. blockedReply) (\<lambda>n. True)"
  have h1: "detailMap (details stateABC) (keyOf entryA) = Some 0"
    by (simp add: stateABC_fields keyOf_samples detailMap_ABC)
  have h2: "fetchAt ?env (fetches stateABC) = Resolved blockedReply"
    by (simp add: envOf_fields)
  have h3: "classify (scrapeDocuments blockedReply) = Blocked"
    by (simp add: classify_samples)
  have h4: "Suc (consecutiveBlocks stateABC) < MAX_CONSECUTIVE_BLOCKS"
    by (simp add: stateABC_fields MAX_CONSECUTIVE_BLOCKS_def)
  have h5: "0 < length [entryA, entryC]" by simp
  have h6: "[entryA, entryC] ! 0 = entryA" by simp
  have nav: "gotoOk ?env (navs stateABC)" by (simp add: envOf_fields)
  have k: "cortOfcCd entryA = ''A''" "csNo entryA = ''1''" "fetchesOf (trace stateABC) = []"
    by (simp_all add: entryA_def stateABC_fields)
  note pass = blocked_retries_same_item [OF h1 h2 h3 h4 h5 h6, of False]
  from nav pass obtain rest where
    "fetchesOf (trace (snd (runLoop ?env False [entryA, entryC] 0 stateABC))) =
       fetchesOf (trace stateABC) @
         (0, cortOfcCd entryA, csNo entryA) # (0, cortOfcCd entryA, csNo entryA) # rest"
    by blast
  then have f: "\<exists>rest. fetchesOf (trace (snd (runLoop ?env False [entryA, entryC] 0 stateABC))) =
       (0, ''A'', ''1'') # (0, ''A'', ''1'') # rest"
    unfolding k by simp
  from nav pass f show ?thesis by blast
qed

text \<open>Claim C1 as stated fails: in a run over two pending items the first fetch is blocked,
  which brings the count to 1, below the limit; the navigation of line 244 throws, the
  \<^verbatim>\<open>catch\<close> block counts an error, and the loop moves on.  The next fetch is for the second
  item; the first item is not fetched again and the run finishes without it.\<close>

theorem blocked_then_goto_throws:
  "classify (scrapeDocuments (blockedThenOk 0)) = Blocked \<and>
   \<not> gotoOk (envLost blockedThenOk) 1 \<and>
   fst (main (envLost blockedThenOk) False False (RawSeq [entryA, entryB, entryC]) None)
     = Finished \<and>
   fetchesOf (trace (snd (main (envLost blockedThenOk) False False
      (RawSeq [entryA, entryB, entryC]) None))) = [(0, ''A'', ''1''), (1, ''C'', ''3'')] \<and>
   completed (progress (snd (main (envLost blockedThenOk) False False
      (RawSeq [entryA, entryB, entryC]) None))) = [''C3''] \<and>
   errors (snd (main (envLost blockedThenOk) False False
      (RawSeq [entryA, entryB, entryC]) None)) = 1"
  by (simp add: model_defs pass_defs sample_defs blockedThenOk_def runLoop.simps)

lemma run_ok_then_blocked:
  "fst (runLoop (envOf okThenBlocked (\<lambda>n. True)) False [entryA, entryC] 0 stateABC) = Exited 1 \<and>
   fetches (snd (runLoop (envOf okThenBlocked (\<lambda>n. True)) False [entryA, entryC] 0 stateABC)) = 6 \<and>
   rawData (snd (runLoop (envOf okThenBlocked (\<lambda>n. True)) False [entryA, entryC] 0 stateABC)) =
     RawSeq [entryA, entryB, entryC] \<and>
   details (snd (runLoop (envOf okThenBlocked (\<lambda>n. True)) False [entryA, entryC] 0 stateABC)) =
     [entryA\<lparr>props := [(''deliveryRecords'', JArr [JStr ''served'']),
                         (''documentRecords'', JArr [])]\<rparr>, entryB, entryC]"
  by (simp add: model_defs pass_defs sample_defs okThenBlocked_def stateABC_def runLoop.simps)

text \<open>Claim C2, instances: a fifth consecutive block with both writes completing; and a
  run whose first item succeeds and whose second item is blocked five times, which exits
  with status 1 after six fetches, the details file holding the result of the first
  item.\<close>

theorem abort_at_limit_witness:
  "runLoop (envOf (\<lambda>n. blockedReply) (\<lambda>n. True)) False [entryA, entryC] 0
       (stateABC\<lparr>consecutiveBlocks := 4\<rparr>) =
     (Exited 1, snd (body (envOf (\<lambda>n. blockedReply) (\<lambda>n. True)) False 0 entryA
                       (stateABC\<lparr>consecutiveBlocks := 4\<rparr>))) \<and>
   progressFile (snd (body (envOf (\<lambda>n. blockedReply) (\<lambda>n. True)) False 0 entryA
                       (stateABC\<lparr>consecutiveBlocks := 4\<rparr>))) =
     Some (progress (stateABC\<lparr>consecutiveBlocks := 4\<rparr>)) \<and>
   fst (runLoop (envOf okThenBlocked (\<lambda>n. True)) False [entryA, entryC] 0 stateABC) = Exited 1 \<and>
   fetches (snd (runLoop (envOf okThenBlocked (\<lambda>n. True)) False [entryA, entryC] 0 stateABC)) = 6 \<and>
   detailsFile (snd (runLoop (envOf okThenBlocked (\<lambda>n. True)) False [entryA, entryC] 0 stateABC)) =
     RawSeq [entryA\<lparr>props := [(''deliveryRecords'', JArr [JStr ''served'']),
                                 (''documentRecords'', JArr [])]\<rparr>, entryB, entryC]"
proof -
  let ?env = "envOf (\<lambda>n. blockedReply) (\<lambda>n. True)"
  let ?s = "stateABC\<lparr>consecutiveBlocks := 4\<rparr>"
  let ?R = "runLoop (envOf okThenBlocked (\<lambda>n. True)) False [entryA, entryC] 0 stateABC"
  have h: "detailMap (details ?s) (keyOf entryA) = Some 0 \<and>
      fetchAt ?env (fetches ?s) = Resolved blockedReply \<and>
      classify (scrapeDocuments blockedReply) = Blocked \<and>
      MAX_CONSECUTIVE_BLOCKS \<le> Suc (consecutiveBlocks ?s) \<and>
      writeOk ?env (writes ?s) \<and> writeOk ?env (Suc (writes ?s)) \<and>
      0 < length [entryA, entryC] \<and> [entryA, entryC] ! 0 = entryA"
    by (simp add: stateABC_fields keyOf_samples detailMap_ABC envOf_fields classify_samples
        MAX_CONSECUTIVE_BLOCKS_def)
  note pass = abort_at_limit [where s = ?s and t = entryA and j = 0 and env = ?env
      and reply = blockedReply and i = 0 and targets = "[entryA, entryC]" and test = False]
  have r: "?R = (Exited 1, snd ?R)"
    using run_ok_then_blocked by (simp add: prod_eq_iff)
  from abort_at_limit [where env = "envOf okThenBlocked (\<lambda>n. True)" and test = False
      and targets = "[entryA, entryC]" and i = 0 and s = stateABC and c = 1 and s' = "snd ?R"] r
  have "detailsFile (snd ?R) = serializeDetails (rawData (snd ?R)) (details (snd ?R))"
    by blast
  then have d: "detailsFile (snd ?R) =
     RawSeq [entryA\<lparr>props := [(''deliveryRecords'', JArr [JStr ''served'']),
                                 (''documentRecords'', JArr [])]\<rparr>, entryB, entryC]"
    using run_ok_then_blocked by simp
  from h pass d run_ok_then_blocked show ?thesis by blast
qed

text \<open>Claim C2 as stated fails: every fetch is blocked and the first write throws.  The
  fifth fetch for the first item brings the count to 5; the write of line 236 throws, so
  nothing is saved and the process does not exit; the \<^verbatim>\<open>catch\<close> block counts an error and
  the run fetches the second item.  That fetch brings the count to 6, and only then does
  the run save both files and exit.\<close>

theorem limit_reached_write_throws:
  "fst (main (envOf (\<lambda>n. blockedReply) (\<lambda>n. n \<noteq> 0)) False False
      (RawSeq [entryA, entryB, entryC]) None) = Exited 1 \<and>
   writesAndFetches (trace (snd (main (envOf (\<lambda>n. blockedReply) (\<lambda>n. n \<noteq> 0)) False False
      (RawSeq [entryA, entryB, entryC]) None))) =
     [Fetch 0 ''A'' ''1'', Fetch 0 ''A'' ''1'', Fetch 0 ''A'' ''1'', Fetch 0 ''A'' ''1'',
      Fetch 0 ''A'' ''1'', WriteDetails False, Fetch 1 ''C'' ''3'',
      WriteDetails True, WriteProgress True, CloseBrowser] \<and>
   consecutiveBlocks (snd (main (envOf (\<lambda>n. blockedReply) (\<lambda>n. n \<noteq> 0)) False False
      (RawSeq [entryA, entryB, entryC]) None)) = 6"
  by (simp add: model_defs pass_defs sample_defs runLoop.simps)

text \<open>Claim C4, instance: an \<open>Error\<close> result that settles, in a pass without periodic
  save.\<close>

theorem error_resets_counter_witness:
  "classify (scrapeDocuments errorReply) = Error \<and>
   settles (envOf (\<lambda>n. errorReply) (\<lambda>n. True)) (scrapeDocuments errorReply)
     (details stateABC ! 0) \<and>
   consecutiveBlocks (snd (body (envOf (\<lambda>n. errorReply) (\<lambda>n. True)) False 1 entryA stateABC)) = 0 \<and>
   completed (progress (snd (body (envOf (\<lambda>n. errorReply) (\<lambda>n. True)) False 1 entryA stateABC)))
     = completed (progress stateABC) @ [keyOf entryA] \<and>
   errors (snd (body (envOf (\<lambda>n. errorReply) (\<lambda>n. True)) False 1 entryA stateABC))
     = Suc (errors stateABC)"
proof -
  let ?env = "envOf (\<lambda>n. errorReply) (\<lambda>n. True)"
  have h1: "detailMap (details stateABC) (keyOf entryA) = Some 0"
    by (simp add: stateABC_fields keyOf_samples detailMap_ABC)
  have h2: "fetchAt ?env (fetches stateABC) = Resolved errorReply"
    by (simp add: envOf_fields)
  have h3: "classify (scrapeDocuments errorReply) \<noteq> Blocked"
    by (simp add: classify_samples)
  have e: "classify (scrapeDocuments errorReply) = Error"
    by (simp add: classify_samples)
  have st: "settles ?env (scrapeDocuments errorReply) (details stateABC ! 0)"
    by (rule settles_samples)
  have p: "\<not> periodicSaveFails ?env False 1 stateABC"
    by (simp add: periodicSaveFails_def)
  from e st p error_resets_counter [OF h1 h2 h3, of False 1]
  show ?thesis by simp
qed

lemma body_blocked_below:
  assumes "detailMap (details s) (keyOf t) = Some j"
    and "fetchAt env (fetches s) = Resolved reply"
    and "classify (scrapeDocuments reply) = Blocked"
    and "Suc (consecutiveBlocks s) < MAX_CONSECUTIVE_BLOCKS"
  shows "consecutiveBlocks (snd (body env test i t s)) = Suc (consecutiveBlocks s)"
    and "fetches (snd (body env test i t s)) = Suc (fetches s)"
    and "details (snd (body env test i t s)) = details s"
  using assms
  by (simp_all add: body_found attempt_blocked onBlocked_below emit_def cooldown_def Let_def
      caught_def delayed_def)

text \<open>Claim C4 as stated fails: after two blocked passes for the same item the count is
  2; the third fetch resolves to an \<open>Error\<close> result, and the count is 0 after that pass,
  not 2.\<close>

theorem error_after_blocks_resets:
  "consecutiveBlocks afterTwoBlocks = 2 \<and>
   fetchAt (envOf twoBlocksThenError (\<lambda>n. True)) (fetches afterTwoBlocks) = Resolved errorReply \<and>
   classify (scrapeDocuments errorReply) = Error \<and>
   consecutiveBlocks
     (snd (body (envOf twoBlocksThenError (\<lambda>n. True)) False 0 entryA afterTwoBlocks)) = 0"
proof -
  let ?env = "envOf twoBlocksThenError (\<lambda>n. True)"
  let ?s1 = "snd (body ?env False 0 entryA stateABC)"
  have a1: "detailMap (details stateABC) (keyOf entryA) = Some 0"
    by (simp add: stateABC_fields keyOf_samples detailMap_ABC)
  have a2: "fetchAt ?env (fetches stateABC) = Resolved blockedReply"
    by (simp add: envOf_fields stateABC_fields twoBlocksThenError_def)
  have a3: "classify (scrapeDocuments blockedReply) = Blocked"
    by (simp add: classify_samples)
  have a4: "Suc (consecutiveBlocks stateABC) < MAX_CONSECUTIVE_BLOCKS"
    by (simp add: stateABC_fields MAX_CONSECUTIVE_BLOCKS_def)
  note p1 = body_blocked_below [OF a1 a2 a3 a4, of False 0]
  have b1: "detailMap (details ?s1) (keyOf entryA) = Some 0"
    by (simp add: p1 a1)
  have b2: "fetchAt ?env (fetches ?s1) = Resolved blockedReply"
    by (simp add: p1 envOf_fields stateABC_fields twoBlocksThenError_def)
  have b4: "Suc (consecutiveBlocks ?s1) < MAX_CONSECUTIVE_BLOCKS"
    by (simp add: p1 stateABC_fields MAX_CONSECUTIVE_BLOCKS_def)
  note p2 = body_blocked_below [OF b1 b2 a3 b4, of False 0]
  have c: "consecutiveBlocks afterTwoBlocks = 2"
    unfolding afterTwoBlocks_def by (simp add: p2 p1 stateABC_fields)
  have f: "fetches afterTwoBlocks = 2"
    unfolding afterTwoBlocks_def by (simp add: p2 p1 stateABC_fields)
  have d: "detailMap (details afterTwoBlocks) (keyOf entryA) = Some 0"
    unfolding afterTwoBlocks_def by (simp add: p2 p1 a1)
  have r: "fetchAt ?env (fetches afterTwoBlocks) = Resolved errorReply"
    by (simp add: f envOf_fields twoBlocksThenError_def)
  have e: "classify (scrapeDocuments errorReply) = Error"
    by (simp add: classify_samples)
  then have nb: "classify (scrapeDocuments errorReply) \<noteq> Blocked" by simp
  have z: "consecutiveBlocks (snd (body ?env False 0 entryA afterTwoBlocks)) = 0"
    by (simp add: body_result [OF d r nb] onResult_cb)
  from c r e z show ?thesis by simp
qed


lemma run_ok_then_error:
  "fst (main (envOf okThenError (\<lambda>n. True)) False False
      (RawSeq [entryA, entryB, entryC]) None) = Finished \<and>
   completed (progress (snd (main (envOf okThenError (\<lambda>n. True)) False False
      (RawSeq [entryA, entryB, entryC]) None))) = [''A1'', ''C3''] \<and>
   errors (snd (main (envOf okThenError (\<lambda>n. True)) False False
      (RawSeq [entryA, entryB, entryC]) None)) = 1"
  by (simp add: model_defs pass_defs sample_defs okThenError_def runLoop.simps)

text \<open>Claim C10, instances: a pass with an \<open>Error\<close> result that settles; and a run over two
  pending items, the first a \<open>Success\<close>, the second an \<open>Error\<close>: two completed keys, a
  success count of 2 and an error count of 1.\<close>

theorem success_counts_settled_witness:
  "settles (envOf (\<lambda>n. errorReply) (\<lambda>n. True)) (scrapeDocuments errorReply)
     (details stateABC ! 0) \<and>
   success (snd (body (envOf (\<lambda>n. errorReply) (\<lambda>n. True)) False 1 entryA stateABC))
     = Suc (success stateABC) \<and>
   completed (progress (snd (body (envOf (\<lambda>n. errorReply) (\<lambda>n. True)) False 1 entryA stateABC)))
     = completed (progress stateABC) @ [keyOf entryA] \<and>
   errors (snd (body (envOf (\<lambda>n. errorReply) (\<lambda>n. True)) False 1 entryA stateABC))
     = Suc (errors stateABC) \<and>
   fst (main (envOf okThenError (\<lambda>n. True)) False False
      (RawSeq [entryA, entryB, entryC]) None) = Finished \<and>
   completed (progress (snd (main (envOf okThenError (\<lambda>n. True)) False False
      (RawSeq [entryA, entryB, entryC]) None))) = [''A1'', ''C3''] \<and>
   errors (snd (main (envOf okThenError (\<lambda>n. True)) False False
      (RawSeq [entryA, entryB, entryC]) None)) = 1 \<and>
   success (snd (main (envOf okThenError (\<lambda>n. True)) False False
      (RawSeq [entryA, entryB, entryC]) None)) = 2"
proof -
  let ?env = "envOf (\<lambda>n. errorReply) (\<lambda>n. True)"
  let ?m = "main (envOf okThenError (\<lambda>n. True)) False False (RawSeq [entryA, entryB, entryC]) None"
  have h: "detailMap (details stateABC) (keyOf entryA) = Some 0 \<and>
      fetchAt ?env (fetches stateABC) = Resolved errorReply \<and>
      classify (scrapeDocuments errorReply) \<noteq> Blocked \<and>
      settles ?env (scrapeDocuments errorReply) (details stateABC ! 0)"
    by (simp add: stateABC_fields keyOf_samples detailMap_ABC envOf_fields classify_samples
        settles_samples)
  have e: "classify (scrapeDocuments errorReply) = Error"
    by (simp add: classify_samples)
  have p: "\<not> periodicSaveFails ?env False 1 stateABC"
    by (simp add: periodicSaveFails_def)
  have l: "length (completed (loadProgress False None)) = 0"
    by (simp add: loadProgress_def freshProgress_def)
  note pass = success_counts_settled [where s = stateABC and t = entryA and j = 0 and env = ?env
      and reply = errorReply and test = False and i = 1]
  from h e p pass
  have b: "success (snd (body ?env False 1 entryA stateABC)) = Suc (success stateABC) \<and>
      completed (progress (snd (body ?env False 1 entryA stateABC)))
        = completed (progress stateABC) @ [keyOf entryA] \<and>
      errors (snd (body ?env False 1 entryA stateABC)) = Suc (errors stateABC)"
    by simp
  have "success (snd ?m) + length (completed (loadProgress False None)) =
      length (completed (progress (snd ?m)))"
    using success_counts_settled [where env = "envOf okThenError (\<lambda>n. True)" and test = False
        and resume = False and raw = "RawSeq [entryA, entryB, entryC]" and pfile = None]
    by blast
  with l run_ok_then_error have r: "success (snd ?m) = 2" by simp
  from h b r run_ok_then_error show ?thesis by simp
qed

text \<open>Claim C10 as stated fails: in a run over two pending items the second fetch resolves
  to an \<open>Error\<close> result whose message is an array holding an object with a property
  \<^verbatim>\<open>toString\<close>.  Line 273 throws on printing it, after the two assignments and before
  line 274; the \<^verbatim>\<open>catch\<close> block counts the error, and lines 277 and 278 are not reached.
  The item is counted in the error total and not in the success total, which counts the
  first item only.\<close>

theorem error_item_not_in_success:
  "classify (scrapeDocuments (okThenOddError 1)) = Error \<and>
   fst (main (envOf okThenOddError (\<lambda>n. True)) False False
      (RawSeq [entryA, entryB, entryC]) None) = Finished \<and>
   completed (progress (snd (main (envOf okThenOddError (\<lambda>n. True)) False False
      (RawSeq [entryA, entryB, entryC]) None))) = [''A1''] \<and>
   success (snd (main (envOf okThenOddError (\<lambda>n. True)) False False
      (RawSeq [entryA, entryB, entryC]) None)) = 1 \<and>
   errors (snd (main (envOf okThenOddError (\<lambda>n. True)) False False
      (RawSeq [entryA, entryB, entryC]) None)) = 1"
  by (simp add: model_defs pass_defs sample_defs okThenOddError_def runLoop.simps)

text \<open>Claim C8 as stated fails: in a run over two pending items whose first write (the
  checkpoint write of the first pass) throws, the next effect is the fetch of the second
  item; the checkpoint is written again only by the final save, and the run finishes.\<close>

theorem first_write_fails_run_goes_on:
  "\<not> writeOk (envOf (\<lambda>n. okReply) (\<lambda>n. n \<noteq> 0)) 0 \<and>
   fst (main (envOf (\<lambda>n. okReply) (\<lambda>n. n \<noteq> 0)) False False
      (RawSeq [entryA, entryB, entryC]) None) = Finished \<and>
   writesAndFetches (trace (snd (main (envOf (\<lambda>n. okReply) (\<lambda>n. n \<noteq> 0)) False False
      (RawSeq [entryA, entryB, entryC]) None))) =
     [Fetch 0 ''A'' ''1'', WriteProgress False, Fetch 1 ''C'' ''3'',
      WriteDetails True, WriteProgress True, CloseBrowser]"
  by (simp add: model_defs pass_defs sample_defs runLoop.simps)

text \<open>Claim C8, instance: the first pass of that run.\<close>

theorem failed_write_goes_on_witness:
  "\<not> writeOk (envOf (\<lambda>n. okReply) (\<lambda>n. n \<noteq> 0)) 0 \<and>
   writes (snd (body (envOf (\<lambda>n. okReply) (\<lambda>n. n \<noteq> 0)) False 0 entryA stateABC)) = Suc 0 \<and>
   fst (body (envOf (\<lambda>n. okReply) (\<lambda>n. n \<noteq> 0)) False 0 entryA stateABC) = Advance \<and>
   errors stateABC < errors (snd (body (envOf (\<lambda>n. okReply) (\<lambda>n. n \<noteq> 0)) False 0 entryA stateABC))"
proof -
  let ?env = "envOf (\<lambda>n. okReply) (\<lambda>n. n \<noteq> 0)"
  have w: "\<not> writeOk ?env 0" by (simp add: envOf_fields)
  have n: "writes (snd (body ?env False 0 entryA stateABC)) = Suc 0"
    by (simp add: model_defs pass_defs sample_defs stateABC_def)
  have h: "writes stateABC \<le> 0 \<and> 0 < writes (snd (body ?env False 0 entryA stateABC)) \<and>
      \<not> writeOk ?env 0"
    using w n by (simp add: stateABC_fields)
  from h w failed_write_goes_on [of stateABC 0 ?env False 0 entryA]
  show ?thesis by blast
qed

text \<open>Claim C5, instance: of four items the checkpoint marks the first two (the second
  also carries an empty \<^verbatim>\<open>deliveryRecords\<close>); the resumed run fetches the third and the
  fourth, in that order.\<close>

theorem pending_fetched_in_order_witness:
  "pendingList (completed checkpointAB) [entryA, entryB, entryC, entryD] = [entryC, entryD] \<and>
   map snd (fetchesOf (trace (snd (main (envOf (\<lambda>n. okReply) (\<lambda>n. True)) False True
      (RawSeq [entryA, entryB, entryC, entryD]) (Some checkpointAB))))) =
     [(''C'', ''3''), (''D'', ''4'')]"
proof -
  let ?env = "envOf (\<lambda>n. okReply) (\<lambda>n. True)"
  have nb: "neverBlocked ?env \<and> gotoOk ?env 0 \<and> wsReady ?env"
    by (simp add: neverBlocked_def envOf_fields classify_samples)
  have p: "pendingList (completed checkpointAB) [entryA, entryB, entryC, entryD] = [entryC, entryD]"
    by (simp add: pendingList_def isPending_def checkpointAB_def keyOf_def getProp_def
        entryA_def entryB_def entryC_def entryD_def)
  have t: "selectTargets False (completed (loadProgress True (Some checkpointAB)))
      (detailsOf (RawSeq [entryA, entryB, entryC, entryD])) = [entryC, entryD]"
    using p by (simp add: selectTargets_def loadProgress_def)
  have f: "map (\<lambda>d. (cortOfcCd d, csNo d)) [entryC, entryD] = [(''C'', ''3''), (''D'', ''4'')]"
    by (simp add: entryC_def entryD_def)
  from nb pending_fetched_in_order [of "completed checkpointAB" "[entryA, entryB, entryC, entryD]"
      False True "Some checkpointAB" "RawSeq [entryA, entryB, entryC, entryD]" ?env]
  have "map snd (fetchesOf (trace (snd (main ?env False True
      (RawSeq [entryA, entryB, entryC, entryD]) (Some checkpointAB))))) =
      map (\<lambda>d. (cortOfcCd d, csNo d))
        (selectTargets False (completed (loadProgress True (Some checkpointAB)))
          (detailsOf (RawSeq [entryA, entryB, entryC, entryD])))"
    by blast
  with p t f show ?thesis by simp
qed

end
